theory Spec2Isabelle
  imports Main "HOL-Library.Log_Nat"
begin

section \<open>JavaScript values\<close>

text \<open>
  The program is TypeScript, so every number is an IEEE double and every bitwise operator
  first converts its operands with ToInt32. A value is modelled as
  \<^item> \<open>Num n\<close>: a finite number with the integer value \<open>n\<close>,
  \<^item> \<open>NaN\<close> and \<open>Inf\<close> (either infinity; no operation here tells their signs apart),
  \<^item> \<open>Obj\<close>: an object or function that is not a number (the program meets such a value
    only as a property inherited from \<open>Object.prototype\<close>),
  \<^item> \<open>Undefined\<close>: the result of reading a property that does not exist.
  Non-integral numbers never arise from the program text and are not modelled.
\<close>

datatype jsval = Num int | NaN | Inf | Obj | Undefined

text \<open>
  The double nearest to a mathematical integer (round to nearest, ties to even).
  Integers below \<open>2^53\<close> in magnitude are exact.
\<close>

definition toNumber :: "int \<Rightarrow> jsval" where
  "toNumber n =
     (if \<bar>n\<bar> < 2 ^ 53 then Num n
      else
        let e = nat (bitlen \<bar>n\<bar>) - 53;
            q = \<bar>n\<bar> div 2 ^ e;
            r = \<bar>n\<bar> mod 2 ^ e;
            q' = (if 2 * r > 2 ^ e \<or> (2 * r = 2 ^ e \<and> odd q) then q + 1 else q);
            m = q' * 2 ^ e
        in if m \<ge> 2 ^ 1024 then Inf else Num (sgn n * m))"

text \<open>ToInt32: wrap into the signed 32-bit range; every value that is not a finite number gives 0.\<close>

definition toInt32 :: "jsval \<Rightarrow> int" where
  "toInt32 v = (case v of Num n \<Rightarrow> signed_take_bit 31 n | _ \<Rightarrow> 0)"

text \<open>The operators \<open>&\<close>, \<open>|\<close>, \<open>^\<close>, \<open>~\<close>, \<open><<\<close> and \<open>>>\<close>. A shift uses the low five bits of its count.\<close>

definition bitAnd :: "jsval \<Rightarrow> jsval \<Rightarrow> jsval" where
  "bitAnd a b = Num (and (toInt32 a) (toInt32 b))"

definition bitOr :: "jsval \<Rightarrow> jsval \<Rightarrow> jsval" where
  "bitOr a b = Num (or (toInt32 a) (toInt32 b))"

definition bitXor :: "jsval \<Rightarrow> jsval \<Rightarrow> jsval" where
  "bitXor a b = Num (xor (toInt32 a) (toInt32 b))"

definition bitNot :: "jsval \<Rightarrow> jsval" where
  "bitNot a = Num (not (toInt32 a))"

definition shl :: "jsval \<Rightarrow> jsval \<Rightarrow> jsval" where
  "shl a b = Num (signed_take_bit 31 (push_bit (nat (and (toInt32 b) 31)) (toInt32 a)))"

definition sar :: "jsval \<Rightarrow> jsval \<Rightarrow> jsval" where
  "sar a b = Num (drop_bit (nat (and (toInt32 b) 31)) (toInt32 a))"

definition isNaN :: "jsval \<Rightarrow> bool" where
  "isNaN v = (v = NaN)"

section \<open>Characters and \<open>parseInt\<close>\<close>

text \<open>
  A string is a list of characters; a \<open>char\<close> stands for a UTF-16 code unit below 256.
  \<open>is_space\<close> is the class \<open>\s\<close> (and the set \<open>trim\<close> strips) on these code units.
\<close>

definition is_space :: "char \<Rightarrow> bool" where
  "is_space c = (c \<in> set [CHR 0x09, CHR 0x0A, CHR 0x0B, CHR 0x0C, CHR 0x0D, CHR 0x20, CHR 0xA0])"

definition is_digit :: "char \<Rightarrow> bool" where
  "is_digit c = (c \<in> set ''0123456789'')"

definition is_hex :: "char \<Rightarrow> bool" where
  "is_hex c = (c \<in> set ''0123456789abcdefABCDEF'')"

definition is_bin :: "char \<Rightarrow> bool" where
  "is_bin c = (c \<in> set ''01'')"

definition is_lower :: "char \<Rightarrow> bool" where
  "is_lower c = (c \<in> set ''abcdefghijklmnopqrstuvwxyz'')"

definition is_upper :: "char \<Rightarrow> bool" where
  "is_upper c = (c \<in> set ''ABCDEFGHIJKLMNOPQRSTUVWXYZ'')"

definition is_ident_start :: "char \<Rightarrow> bool" where
  "is_ident_start c = (c \<in> set ''abcdefghijklmnopqrstuvwxyzABCDEFGHIJKLMNOPQRSTUVWXYZ_'')"

definition is_ident_char :: "char \<Rightarrow> bool" where
  "is_ident_char c =
     (c \<in> set ''abcdefghijklmnopqrstuvwxyzABCDEFGHIJKLMNOPQRSTUVWXYZ0123456789_'')"

definition trim :: "string \<Rightarrow> string" where
  "trim s = rev (dropWhile is_space (rev (dropWhile is_space s)))"

text \<open>The value of a character as a digit in some radix up to 36; 36 for any other character.\<close>

definition digitValue :: "char \<Rightarrow> nat" where
  "digitValue c =
     (if is_digit c then of_char c - 48
      else if is_lower c then of_char c - 87
      else if is_upper c then of_char c - 55
      else 36)"

text \<open>
  \<open>parseInt(s, radix)\<close> for a radix from 2 to 36: leading white space and one sign are
  skipped, with radix 16 a prefix \<open>0x\<close> or \<open>0X\<close> as well; the longest run of digits of the
  radix is read, and an empty run gives NaN.
\<close>

definition parseInt :: "string \<Rightarrow> nat \<Rightarrow> jsval" where
  "parseInt s radix =
     (let t = dropWhile is_space s;
          neg = (take 1 t = ''-'');
          t = (if take 1 t = ''-'' \<or> take 1 t = ''+'' then drop 1 t else t);
          t = (if radix = 16 \<and> (take 2 t = ''0x'' \<or> take 2 t = ''0X'') then drop 2 t else t);
          ds = takeWhile (\<lambda>c. digitValue c < radix) t
      in if ds = [] then NaN
         else toNumber ((if neg then - 1 else 1) *
                        foldl (\<lambda>a c. a * int radix + int (digitValue c)) 0 ds))"

section \<open>The tokenizer (\<open>evaluator.ts\<close>)\<close>

datatype TokenType =
    NUMBER | IDENTIFIER | LPAREN | RPAREN
  | OR | AND | XOR | NOT | LSHIFT | RSHIFT
  | ASSIGN | OR_ASSIGN | AND_ASSIGN | XOR_ASSIGN
  | SEMICOLON | EOF

text \<open>The fields \<open>type\<close> and \<open>value\<close> of the source are \<open>type'\<close> and \<open>value'\<close> here.\<close>

record Token =
  type' :: TokenType
  value' :: string
  numValue :: "jsval option"

definition tok :: "TokenType \<Rightarrow> string \<Rightarrow> Token" where
  "tok ty v = \<lparr>type' = ty, value' = v, numValue = None\<rparr>"

definition numTok :: "string \<Rightarrow> jsval \<Rightarrow> Token" where
  "numTok v n = \<lparr>type' = NUMBER, value' = v, numValue = Some n\<rparr>"

text \<open>The two-character operators, tried only when a second character exists.\<close>

definition twoCharOp :: "char \<Rightarrow> char \<Rightarrow> Token option" where
  "twoCharOp c d =
     (if [c, d] = ''|='' then Some (tok OR_ASSIGN ''|='')
      else if [c, d] = ''&='' then Some (tok AND_ASSIGN ''&='')
      else if [c, d] = ''^='' then Some (tok XOR_ASSIGN ''^='')
      else if [c, d] = ''<<'' then Some (tok LSHIFT ''<<'')
      else if [c, d] = ''>>'' then Some (tok RSHIFT ''>>'')
      else None)"

definition oneCharOp :: "char \<Rightarrow> Token option" where
  "oneCharOp c =
     (if c = CHR ''='' then Some (tok ASSIGN ''='')
      else if c = CHR ''|'' then Some (tok OR ''|'')
      else if c = CHR ''&'' then Some (tok AND ''&'')
      else if c = CHR ''^'' then Some (tok XOR ''^'')
      else if c = CHR ''~'' then Some (tok NOT ''~'')
      else if c = CHR ''('' then Some (tok LPAREN ''('')
      else if c = CHR '')'' then Some (tok RPAREN '')'')
      else None)"

text \<open>
  The body of the \<open>while\<close> loop of \<open>tokenize\<close>; the argument is the text from position
  \<open>i\<close> on. Every branch consumes at least one character.
\<close>

function scan :: "string \<Rightarrow> Token list" where
  "scan [] = []"
| "scan (c # cs) =
     (if is_space c then scan cs
      else if c = CHR '';'' then tok SEMICOLON '';'' # scan cs
      else
        case (case cs of d # _ \<Rightarrow> twoCharOp c d | [] \<Rightarrow> None) of
          Some t \<Rightarrow> t # scan (tl cs)
        | None \<Rightarrow>
           (case oneCharOp c of
              Some t \<Rightarrow> t # scan cs
            | None \<Rightarrow>
               if is_digit c then
                 (if c = CHR ''0'' \<and> cs \<noteq> [] \<and> (hd cs = CHR ''x'' \<or> hd cs = CHR ''X'') then
                    let numStr = ''0x'' @ takeWhile is_hex (tl cs)
                    in numTok numStr (bitAnd (parseInt numStr 16) (Num 0xFF))
                         # scan (dropWhile is_hex (tl cs))
                  else if c = CHR ''0'' \<and> cs \<noteq> [] \<and> (hd cs = CHR ''b'' \<or> hd cs = CHR ''B'') then
                    let numStr = ''0b'' @ takeWhile is_bin (tl cs)
                    in numTok numStr (bitAnd (parseInt (drop 2 numStr) 2) (Num 0xFF))
                         # scan (dropWhile is_bin (tl cs))
                  else
                    let numStr = takeWhile is_digit (c # cs)
                    in numTok numStr (bitAnd (parseInt numStr 10) (Num 0xFF))
                         # scan (dropWhile is_digit cs))
               else if is_ident_start c then
                 tok IDENTIFIER (takeWhile is_ident_char (c # cs)) # scan (dropWhile is_ident_char cs)
               else scan cs))"
  by pat_completeness auto
termination
  by (relation "measure length")
     (auto simp: less_Suc_eq_le length_dropWhile_le le_trans [OF length_dropWhile_le]
           split: list.splits)

definition tokenize :: "string \<Rightarrow> Token list" where
  "tokenize input = scan (trim input) @ [tok EOF '''']"

section \<open>Objects used as dictionaries\<close>

text \<open>
  \<open>allNamedBits\<close> and the register states are plain objects, so their prototype is
  \<open>Object.prototype\<close>. An object is modelled by the map of its own properties; the
  properties of \<open>Object.prototype\<close> are inherited by each of them. The operator \<open>in\<close> and a
  property read follow the prototype chain; an assignment creates or updates an own
  property, except that assigning a number to an inherited \<open>__proto__\<close> runs the setter of
  \<open>Object.prototype\<close>, which ignores a value that is not an object.
\<close>

definition objectPrototypeKeys :: "string list" where
  "objectPrototypeKeys =
     [''constructor'', ''__defineGetter__'', ''__defineSetter__'', ''hasOwnProperty'',
      ''__lookupGetter__'', ''__lookupSetter__'', ''isPrototypeOf'', ''propertyIsEnumerable'',
      ''toString'', ''valueOf'', ''__proto__'', ''toLocaleString'']"

definition hasProperty :: "(string \<rightharpoonup> jsval) \<Rightarrow> string \<Rightarrow> bool" where
  "hasProperty obj k = (obj k \<noteq> None \<or> k \<in> set objectPrototypeKeys)"

definition getProperty :: "(string \<rightharpoonup> jsval) \<Rightarrow> string \<Rightarrow> jsval" where
  "getProperty obj k =
     (case obj k of
        Some v \<Rightarrow> v
      | None \<Rightarrow> if k \<in> set objectPrototypeKeys then Obj else Undefined)"

definition setProperty :: "(string \<rightharpoonup> jsval) \<Rightarrow> string \<Rightarrow> jsval \<Rightarrow> (string \<rightharpoonup> jsval)" where
  "setProperty obj k v = (if k = ''__proto__'' \<and> obj k = None then obj else obj(k \<mapsto> v))"

text \<open>The operator \<open>??\<close>.\<close>

definition nullish :: "jsval \<Rightarrow> jsval \<Rightarrow> jsval" where
  "nullish v d = (if v = Undefined then d else v)"

section \<open>The symbol table (\<open>data/atmega2560\<close>)\<close>

definition portNames :: "char list" where
  "portNames = ''ABCDEFGHJKL''"

definition digitChar :: "nat \<Rightarrow> char" where
  "digitChar i = char_of (48 + i)"

text \<open>The entries of \<open>bitNameMap\<close>, in the order the loops insert them.\<close>

definition bitNameMap :: "(string \<times> int) list" where
  "bitNameMap =
     concat (map (\<lambda>name. concat (map (\<lambda>i.
        [(''P'' @ [name] @ [digitChar i], int i),
         (''DD'' @ [name] @ [digitChar i], int i),
         (''PIN'' @ [name] @ [digitChar i], int i)]) [0..<8])) portNames)"

definition namedRegisterBits :: "(string \<times> (string \<times> int) list) list" where
  "namedRegisterBits =
     [(''UCSR0A'', [(''MPCM0'', 0), (''U2X0'', 1), (''UPE0'', 2), (''DOR0'', 3), (''FE0'', 4),
                   (''UDRE0'', 5), (''TXC0'', 6), (''RXC0'', 7)]),
      (''UCSR0B'', [(''TXB80'', 0), (''RXB80'', 1), (''UCSZ02'', 2), (''TXEN0'', 3), (''RXEN0'', 4),
                   (''UDRIE0'', 5), (''TXCIE0'', 6), (''RXCIE0'', 7)]),
      (''UCSR0C'', [(''UCPOL0'', 0), (''UCSZ00'', 1), (''UCSZ01'', 2), (''USBS0'', 3), (''UPM00'', 4),
                   (''UPM01'', 5), (''UMSEL00'', 6), (''UMSEL01'', 7)]),
      (''TCCR0A'', [(''WGM00'', 0), (''WGM01'', 1), (''COM0B0'', 4), (''COM0B1'', 5),
                   (''COM0A0'', 6), (''COM0A1'', 7)]),
      (''TCCR0B'', [(''CS00'', 0), (''CS01'', 1), (''CS02'', 2), (''WGM02'', 3), (''FOC0B'', 6),
                   (''FOC0A'', 7)]),
      (''TCCR1A'', [(''WGM10'', 0), (''WGM11'', 1), (''COM1C0'', 2), (''COM1C1'', 3), (''COM1B0'', 4),
                   (''COM1B1'', 5), (''COM1A0'', 6), (''COM1A1'', 7)]),
      (''TCCR1B'', [(''CS10'', 0), (''CS11'', 1), (''CS12'', 2), (''WGM12'', 3), (''WGM13'', 4),
                   (''ICES1'', 6), (''ICNC1'', 7)]),
      (''TCCR3A'', [(''WGM30'', 0), (''WGM31'', 1), (''COM3C0'', 2), (''COM3C1'', 3), (''COM3B0'', 4),
                   (''COM3B1'', 5), (''COM3A0'', 6), (''COM3A1'', 7)]),
      (''TCCR3B'', [(''CS30'', 0), (''CS31'', 1), (''CS32'', 2), (''WGM32'', 3), (''WGM33'', 4),
                   (''ICES3'', 6), (''ICNC3'', 7)]),
      (''ADMUX'', [(''MUX0'', 0), (''MUX1'', 1), (''MUX2'', 2), (''MUX3'', 3), (''MUX4'', 4),
                  (''ADLAR'', 5), (''REFS0'', 6), (''REFS1'', 7)]),
      (''ADCSRA'', [(''ADPS0'', 0), (''ADPS1'', 1), (''ADPS2'', 2), (''ADIE'', 3), (''ADIF'', 4),
                   (''ADATE'', 5), (''ADSC'', 6), (''ADEN'', 7)]),
      (''SPCR'', [(''SPR0'', 0), (''SPR1'', 1), (''CPHA'', 2), (''CPOL'', 3), (''MSTR'', 4),
                 (''DORD'', 5), (''SPE'', 6), (''SPIE'', 7)]),
      (''EICRA'', [(''ISC00'', 0), (''ISC01'', 1), (''ISC10'', 2), (''ISC11'', 3), (''ISC20'', 4),
                  (''ISC21'', 5), (''ISC30'', 6), (''ISC31'', 7)]),
      (''EIMSK'', [(''INT0'', 0), (''INT1'', 1), (''INT2'', 2), (''INT3'', 3), (''INT4'', 4),
                  (''INT5'', 5), (''INT6'', 6), (''INT7'', 7)])]"

text \<open>
  \<open>allNamedBits\<close>: the entries of \<open>bitNameMap\<close>, then those of every named register; a later
  assignment to the same name replaces the earlier one.
\<close>

definition allNamedBitsEntries :: "(string \<times> int) list" where
  "allNamedBitsEntries = bitNameMap @ concat (map snd namedRegisterBits)"

definition allNamedBits :: "string \<rightharpoonup> jsval" where
  "allNamedBits = map_option Num \<circ> map_of (rev allNamedBitsEntries)"

section \<open>The parser (\<open>class Parser\<close>)\<close>

text \<open>
  The parser's state is the list of the tokens from \<open>pos\<close> on. Every \<open>throw\<close> is a value
  of \<open>Error\<close>, and \<open>message\<close> is the text of the exception.
\<close>

datatype Error =
    Expected TokenType Token
  | UnknownIdentifier string
  | UnexpectedToken Token
  | ExpectedAssignment Token
  | UnknownOperator string

definition typeName :: "TokenType \<Rightarrow> string" where
  "typeName ty =
     (case ty of
        NUMBER \<Rightarrow> ''NUMBER'' | IDENTIFIER \<Rightarrow> ''IDENTIFIER''
      | LPAREN \<Rightarrow> ''LPAREN'' | RPAREN \<Rightarrow> ''RPAREN''
      | OR \<Rightarrow> ''OR'' | AND \<Rightarrow> ''AND'' | XOR \<Rightarrow> ''XOR'' | NOT \<Rightarrow> ''NOT''
      | LSHIFT \<Rightarrow> ''LSHIFT'' | RSHIFT \<Rightarrow> ''RSHIFT''
      | ASSIGN \<Rightarrow> ''ASSIGN'' | OR_ASSIGN \<Rightarrow> ''OR_ASSIGN''
      | AND_ASSIGN \<Rightarrow> ''AND_ASSIGN'' | XOR_ASSIGN \<Rightarrow> ''XOR_ASSIGN''
      | SEMICOLON \<Rightarrow> ''SEMICOLON'' | EOF \<Rightarrow> ''EOF'')"

definition message :: "Error \<Rightarrow> string" where
  "message e =
     (case e of
        Expected ty t \<Rightarrow>
          ''Expected '' @ typeName ty @ '' but got '' @ typeName (type' t) @
          '' ('' @ [CHR 0x27] @ value' t @ [CHR 0x27] @ '')''
      | UnknownIdentifier name \<Rightarrow> ''Unknown identifier: '' @ name
      | UnexpectedToken t \<Rightarrow>
          ''Unexpected token: '' @ typeName (type' t) @ '' ('' @ [CHR 0x27] @ value' t @ [CHR 0x27] @ '')''
      | ExpectedAssignment t \<Rightarrow>
          ''Expected assignment operator but got '' @ [CHR 0x27] @ value' t @ [CHR 0x27]
      | UnknownOperator opr \<Rightarrow> ''Unknown operator: '' @ opr)"

definition peek :: "Token list \<Rightarrow> Token" where
  "peek ts = (case ts of [] \<Rightarrow> tok EOF '''' | t # _ \<Rightarrow> t)"

definition advance :: "Token list \<Rightarrow> Token list" where
  "advance ts = tl ts"

definition expect :: "TokenType \<Rightarrow> Token list \<Rightarrow> Error + (Token \<times> Token list)" where
  "expect ty ts =
     (let t = peek ts in
      if type' t \<noteq> ty then Inl (Expected ty t) else Inr (t, advance ts))"

function parseExpression :: "Token list \<Rightarrow> Error + (jsval \<times> Token list)"
  and parseOr :: "Token list \<Rightarrow> Error + (jsval \<times> Token list)"
  and parseOrLoop :: "jsval \<Rightarrow> Token list \<Rightarrow> Error + (jsval \<times> Token list)"
  and parseXor :: "Token list \<Rightarrow> Error + (jsval \<times> Token list)"
  and parseXorLoop :: "jsval \<Rightarrow> Token list \<Rightarrow> Error + (jsval \<times> Token list)"
  and parseAnd :: "Token list \<Rightarrow> Error + (jsval \<times> Token list)"
  and parseAndLoop :: "jsval \<Rightarrow> Token list \<Rightarrow> Error + (jsval \<times> Token list)"
  and parseShift :: "Token list \<Rightarrow> Error + (jsval \<times> Token list)"
  and parseShiftLoop :: "jsval \<Rightarrow> Token list \<Rightarrow> Error + (jsval \<times> Token list)"
  and parseUnary :: "Token list \<Rightarrow> Error + (jsval \<times> Token list)"
  and parsePrimary :: "Token list \<Rightarrow> Error + (jsval \<times> Token list)"
where
  "parseExpression ts = parseOr ts"
| "parseOr ts =
     (case parseXor ts of
        Inl e \<Rightarrow> Inl e
      | Inr (left, ts') \<Rightarrow> parseOrLoop left ts')"
| "parseOrLoop left ts =
     (if type' (peek ts) = OR then
        (case parseXor (advance ts) of
           Inl e \<Rightarrow> Inl e
         | Inr (r, ts') \<Rightarrow> parseOrLoop (bitAnd (bitOr left r) (Num 0xFF)) ts')
      else Inr (left, ts))"
| "parseXor ts =
     (case parseAnd ts of
        Inl e \<Rightarrow> Inl e
      | Inr (left, ts') \<Rightarrow> parseXorLoop left ts')"
| "parseXorLoop left ts =
     (if type' (peek ts) = XOR then
        (case parseAnd (advance ts) of
           Inl e \<Rightarrow> Inl e
         | Inr (r, ts') \<Rightarrow> parseXorLoop (bitAnd (bitXor left r) (Num 0xFF)) ts')
      else Inr (left, ts))"
| "parseAnd ts =
     (case parseShift ts of
        Inl e \<Rightarrow> Inl e
      | Inr (left, ts') \<Rightarrow> parseAndLoop left ts')"
| "parseAndLoop left ts =
     (if type' (peek ts) = AND then
        (case parseShift (advance ts) of
           Inl e \<Rightarrow> Inl e
         | Inr (r, ts') \<Rightarrow> parseAndLoop (bitAnd (bitAnd left r) (Num 0xFF)) ts')
      else Inr (left, ts))"
| "parseShift ts =
     (case parseUnary ts of
        Inl e \<Rightarrow> Inl e
      | Inr (left, ts') \<Rightarrow> parseShiftLoop left ts')"
| "parseShiftLoop left ts =
     (if type' (peek ts) = LSHIFT \<or> type' (peek ts) = RSHIFT then
        (case parseUnary (advance ts) of
           Inl e \<Rightarrow> Inl e
         | Inr (right, ts') \<Rightarrow>
             parseShiftLoop
               (if type' (peek ts) = LSHIFT then bitAnd (shl left right) (Num 0xFF)
                else bitAnd (sar left right) (Num 0xFF))
               ts')
      else Inr (left, ts))"
| "parseUnary ts =
     (if type' (peek ts) = NOT then
        (case parseUnary (advance ts) of
           Inl e \<Rightarrow> Inl e
         | Inr (v, ts') \<Rightarrow> Inr (bitAnd (bitNot v) (Num 0xFF), ts'))
      else parsePrimary ts)"
| "parsePrimary ts =
     (let t = peek ts in
      if type' t = NUMBER then
        Inr (case numValue t of Some v \<Rightarrow> v | None \<Rightarrow> Undefined, advance ts)
      else if type' t = IDENTIFIER then
        (if hasProperty allNamedBits (value' t)
         then Inr (getProperty allNamedBits (value' t), advance ts)
         else Inl (UnknownIdentifier (value' t)))
      else if type' t = LPAREN then
        (case parseExpression (advance ts) of
           Inl e \<Rightarrow> Inl e
         | Inr (val, ts') \<Rightarrow>
             (case expect RPAREN ts' of
                Inl e \<Rightarrow> Inl e
              | Inr (_, ts'') \<Rightarrow> Inr (val, ts'')))
      else Inl (UnexpectedToken t))"
  by pat_completeness auto

text \<open>
  Termination: a call returns a suffix of its tokens, so each loop iteration and each
  parenthesis works on a shorter list.
\<close>

abbreviation
  "pdom \<equiv> parseExpression_parseOr_parseOrLoop_parseXor_parseXorLoop_parseAnd_parseAndLoop_parseShift_parseShiftLoop_parseUnary_parsePrimary_dom"

lemma advance_shorter: "type' (peek ts) \<noteq> EOF \<Longrightarrow> length (advance ts) < length ts"
  by (cases ts) (simp_all add: peek_def advance_def tok_def)

lemma expect_length: "expect ty ts = Inr (t, ts') \<Longrightarrow> length ts' \<le> length ts"
  by (auto simp: expect_def advance_def Let_def split: if_splits)

lemma parse_length_dom:
  "pdom (Inl (Inl (Inl ts0))) \<Longrightarrow> (\<And>v ts'. parseExpression ts0 = Inr (v, ts') \<Longrightarrow> length ts' \<le> length ts0)"
  "pdom (Inl (Inl (Inr ts1))) \<Longrightarrow> (\<And>v ts'. parseOr ts1 = Inr (v, ts') \<Longrightarrow> length ts' \<le> length ts1)"
  "pdom (Inl (Inr (Inl (l2, ts2)))) \<Longrightarrow> (\<And>v ts'. parseOrLoop l2 ts2 = Inr (v, ts') \<Longrightarrow> length ts' \<le> length ts2)"
  "pdom (Inl (Inr (Inr (Inl ts3)))) \<Longrightarrow> (\<And>v ts'. parseXor ts3 = Inr (v, ts') \<Longrightarrow> length ts' \<le> length ts3)"
  "pdom (Inl (Inr (Inr (Inr (l4, ts4))))) \<Longrightarrow> (\<And>v ts'. parseXorLoop l4 ts4 = Inr (v, ts') \<Longrightarrow> length ts' \<le> length ts4)"
  "pdom (Inr (Inl (Inl ts5))) \<Longrightarrow> (\<And>v ts'. parseAnd ts5 = Inr (v, ts') \<Longrightarrow> length ts' \<le> length ts5)"
  "pdom (Inr (Inl (Inr (Inl (l6, ts6))))) \<Longrightarrow> (\<And>v ts'. parseAndLoop l6 ts6 = Inr (v, ts') \<Longrightarrow> length ts' \<le> length ts6)"
  "pdom (Inr (Inl (Inr (Inr ts7)))) \<Longrightarrow> (\<And>v ts'. parseShift ts7 = Inr (v, ts') \<Longrightarrow> length ts' \<le> length ts7)"
  "pdom (Inr (Inr (Inl (l8, ts8)))) \<Longrightarrow> (\<And>v ts'. parseShiftLoop l8 ts8 = Inr (v, ts') \<Longrightarrow> length ts' \<le> length ts8)"
  "pdom (Inr (Inr (Inr (Inl ts9)))) \<Longrightarrow> (\<And>v ts'. parseUnary ts9 = Inr (v, ts') \<Longrightarrow> length ts' \<le> length ts9)"
  "pdom (Inr (Inr (Inr (Inr ts10)))) \<Longrightarrow> (\<And>v ts'. parsePrimary ts10 = Inr (v, ts') \<Longrightarrow> length ts' \<le> length ts10)"
proof (induct rule: parseExpression_parseOr_parseOrLoop_parseXor_parseXorLoop_parseAnd_parseAndLoop_parseShift_parseShiftLoop_parseUnary_parsePrimary.pinduct)
  case (1 ts)
  then show ?case by (auto simp: parseExpression.psimps split: sum.splits prod.splits)
next
  case (2 ts)
  from 2(4) parseOr.psimps [OF 2(1)] obtain l y where a: "parseXor ts = Inr (l, y)" and b: "parseOrLoop l y = Inr (v, ts')"
    by (auto split: sum.splits)
  from 2(2) [OF a] have "length y \<le> length ts" .
  moreover from 2(3) [OF a refl b] have "length ts' \<le> length y" .
  ultimately show ?case by simp
next
  case (3 left ts)
  note eq = parseOrLoop.psimps [OF 3(1)]
  show ?case
  proof (cases "type' (peek ts) = OR")
    case True
    with 3(4) eq obtain r y where a: "parseXor (advance ts) = Inr (r, y)"
      and b: "parseOrLoop (bitAnd (bitOr left r) (Num 255)) y = Inr (v, ts')"
      by (auto split: sum.splits)
    from 3(2) [OF True a] have "length y \<le> length (advance ts)" .
    moreover from 3(3) [OF True a refl b] have "length ts' \<le> length y" .
    moreover have "length (advance ts) < length ts" using True by (intro advance_shorter) auto
    ultimately show ?thesis by simp
  next
    case False
    with 3(4) eq show ?thesis by simp
  qed
next
  case (4 ts)
  from 4(4) parseXor.psimps [OF 4(1)] obtain l y where a: "parseAnd ts = Inr (l, y)" and b: "parseXorLoop l y = Inr (v, ts')"
    by (auto split: sum.splits)
  from 4(2) [OF a] have "length y \<le> length ts" .
  moreover from 4(3) [OF a refl b] have "length ts' \<le> length y" .
  ultimately show ?case by simp
next
  case (5 left ts)
  note eq = parseXorLoop.psimps [OF 5(1)]
  show ?case
  proof (cases "type' (peek ts) = XOR")
    case True
    with 5(4) eq obtain r y where a: "parseAnd (advance ts) = Inr (r, y)"
      and b: "parseXorLoop (bitAnd (bitXor left r) (Num 255)) y = Inr (v, ts')"
      by (auto split: sum.splits)
    from 5(2) [OF True a] have "length y \<le> length (advance ts)" .
    moreover from 5(3) [OF True a refl b] have "length ts' \<le> length y" .
    moreover have "length (advance ts) < length ts" using True by (intro advance_shorter) auto
    ultimately show ?thesis by simp
  next
    case False
    with 5(4) eq show ?thesis by simp
  qed
next
  case (6 ts)
  from 6(4) parseAnd.psimps [OF 6(1)] obtain l y where a: "parseShift ts = Inr (l, y)" and b: "parseAndLoop l y = Inr (v, ts')"
    by (auto split: sum.splits)
  from 6(2) [OF a] have "length y \<le> length ts" .
  moreover from 6(3) [OF a refl b] have "length ts' \<le> length y" .
  ultimately show ?case by simp
next
  case (7 left ts)
  note eq = parseAndLoop.psimps [OF 7(1)]
  show ?case
  proof (cases "type' (peek ts) = AND")
    case True
    with 7(4) eq obtain r y where a: "parseShift (advance ts) = Inr (r, y)"
      and b: "parseAndLoop (bitAnd (bitAnd left r) (Num 255)) y = Inr (v, ts')"
      by (auto split: sum.splits)
    from 7(2) [OF True a] have "length y \<le> length (advance ts)" .
    moreover from 7(3) [OF True a refl b] have "length ts' \<le> length y" .
    moreover have "length (advance ts) < length ts" using True by (intro advance_shorter) auto
    ultimately show ?thesis by simp
  next
    case False
    with 7(4) eq show ?thesis by simp
  qed
next
  case (8 ts)
  from 8(4) parseShift.psimps [OF 8(1)] obtain l y where a: "parseUnary ts = Inr (l, y)" and b: "parseShiftLoop l y = Inr (v, ts')"
    by (auto split: sum.splits)
  from 8(2) [OF a] have "length y \<le> length ts" .
  moreover from 8(3) [OF a refl b] have "length ts' \<le> length y" .
  ultimately show ?case by simp
next
  case (9 left ts)
  note eq = parseShiftLoop.psimps [OF 9(1)]
  show ?case
  proof (cases "type' (peek ts) = LSHIFT \<or> type' (peek ts) = RSHIFT")
    case True
    with 9(4) eq obtain r y where a: "parseUnary (advance ts) = Inr (r, y)"
      and b: "parseShiftLoop (if type' (peek ts) = LSHIFT then bitAnd (shl left r) (Num 255) else bitAnd (sar left r) (Num 255)) y = Inr (v, ts')"
      by (auto split: sum.splits)
    from 9(2) [OF True a] have "length y \<le> length (advance ts)" .
    moreover from 9(3) [OF True a refl b] have "length ts' \<le> length y" .
    moreover have "length (advance ts) < length ts" using True by (intro advance_shorter) auto
    ultimately show ?thesis by simp
  next
    case False
    with 9(4) eq show ?thesis by simp
  qed
next
  case (10 ts)
  note eq = parseUnary.psimps [OF 10(1)]
  show ?case
  proof (cases "type' (peek ts) = NOT")
    case True
    with 10(4) eq obtain w where a: "parseUnary (advance ts) = Inr (w, ts')"
      by (auto split: sum.splits)
    from 10(2) [OF True a] have "length ts' \<le> length (advance ts)" .
    moreover have "length (advance ts) < length ts" using True by (intro advance_shorter) auto
    ultimately show ?thesis by simp
  next
    case False
    with 10(4) eq 10(3) show ?thesis by simp
  qed
next
  case (11 ts)
  note eq = parsePrimary.psimps [OF 11(1)]
  have adv: "length (advance ts) \<le> length ts" by (simp add: advance_def)
  show ?case
  proof (cases "type' (peek ts) = LPAREN")
    case True
    with 11(3) eq obtain y t where a: "parseExpression (advance ts) = Inr (v, y)"
      and b: "expect RPAREN y = Inr (t, ts')"
      by (auto simp: Let_def split: sum.splits)
    from 11(2) [OF refl _ _ True a] True have "length y \<le> length (advance ts)" by simp
    with expect_length [OF b] adv show ?thesis by simp
  next
    case False
    with 11(3) eq adv show ?thesis by (auto simp: Let_def split: if_splits)
  qed
qed

termination parseExpression
  apply (relation "inv_image (less_than <*lex*> less_than)
   (\<lambda>x. case x of
      Inl (Inl (Inl ts)) \<Rightarrow> (length ts, 10::nat)
    | Inl (Inl (Inr ts)) \<Rightarrow> (length ts, 9)
    | Inl (Inr (Inl (l, ts))) \<Rightarrow> (length ts, 0)
    | Inl (Inr (Inr (Inl ts))) \<Rightarrow> (length ts, 7)
    | Inl (Inr (Inr (Inr (l, ts)))) \<Rightarrow> (length ts, 0)
    | Inr (Inl (Inl ts)) \<Rightarrow> (length ts, 5)
    | Inr (Inl (Inr (Inl (l, ts)))) \<Rightarrow> (length ts, 0)
    | Inr (Inl (Inr (Inr ts))) \<Rightarrow> (length ts, 3)
    | Inr (Inr (Inl (l, ts))) \<Rightarrow> (length ts, 0)
    | Inr (Inr (Inr (Inl ts))) \<Rightarrow> (length ts, 2)
    | Inr (Inr (Inr (Inr ts))) \<Rightarrow> (length ts, 1))")
                      apply (intro wf_inv_image wf_lex_prod wf_less_than)
                      apply (auto simp: advance_shorter)
  subgoal for ts a b using parse_length_dom(4) [of ts a b] by simp
  subgoal for ts a b using parse_length_dom(4) [of "advance ts" a b] advance_shorter [of ts] by simp
  subgoal for ts a b using parse_length_dom(6) [of ts a b] by simp
  subgoal for ts a b using parse_length_dom(6) [of "advance ts" a b] advance_shorter [of ts] by simp
  subgoal for ts a b using parse_length_dom(8) [of ts a b] by simp
  subgoal for ts a b using parse_length_dom(8) [of "advance ts" a b] advance_shorter [of ts] by simp
  subgoal for ts a b using parse_length_dom(10) [of ts a b] by simp
  subgoal for ts a b using parse_length_dom(10) [of "advance ts" a b] advance_shorter [of ts] by simp
  subgoal for ts a b using parse_length_dom(10) [of "advance ts" a b] advance_shorter [of ts] by simp
  done


declare parseExpression.simps [simp del] parseOr.simps [simp del] parseOrLoop.simps [simp del]
  parseXor.simps [simp del] parseXorLoop.simps [simp del] parseAnd.simps [simp del]
  parseAndLoop.simps [simp del] parseShift.simps [simp del] parseShiftLoop.simps [simp del]
  parseUnary.simps [simp del] parsePrimary.simps [simp del] scan.simps [simp del]

text \<open>
  \<open>parseStatement\<close> returns the statement as the triple (register, value, op), \<open>None\<close>
  for \<open>null\<close>, together with the parser's new position.
\<close>

definition parseStatement ::
  "Token list \<Rightarrow> Error + ((string \<times> jsval \<times> string) option \<times> Token list)" where
  "parseStatement ts =
     (if type' (peek ts) = EOF then Inr (None, ts)
      else if type' (peek ts) = SEMICOLON then Inr (None, advance ts)
      else
        case expect IDENTIFIER ts of
          Inl e \<Rightarrow> Inl e
        | Inr (regToken, ts1) \<Rightarrow>
            let opToken = peek ts1 in
            case (if type' opToken = ASSIGN then Inr (''='', advance ts1)
                  else if type' opToken = OR_ASSIGN then Inr (''|='', advance ts1)
                  else if type' opToken = AND_ASSIGN then Inr (''&='', advance ts1)
                  else if type' opToken = XOR_ASSIGN then Inr (''^='', advance ts1)
                  else Inl (ExpectedAssignment opToken)) of
              Inl e \<Rightarrow> Inl e
            | Inr (opr, ts2) \<Rightarrow>
                (case parseExpression ts2 of
                   Inl e \<Rightarrow> Inl e
                 | Inr (exprValue, ts3) \<Rightarrow>
                     Inr (Some (value' regToken, exprValue, opr),
                          if type' (peek ts3) = SEMICOLON then advance ts3 else ts3)))"

section \<open>\<open>evaluate\<close> and \<open>checkAnswer\<close>\<close>

record Step =
  register :: string
  op :: string
  exprValue :: jsval
  before :: jsval
  after :: jsval

record EvalResult =
  success :: bool
  registerStates :: "string \<rightharpoonup> jsval"
  error :: "string option"
  steps :: "Step list"

text \<open>The \<open>switch\<close> on the statement's operator.\<close>

definition applyOp :: "string \<Rightarrow> jsval \<Rightarrow> jsval \<Rightarrow> Error + jsval" where
  "applyOp opr bef val =
     (if opr = ''='' then Inr (bitAnd val (Num 0xFF))
      else if opr = ''|='' then Inr (bitAnd (bitOr bef val) (Num 0xFF))
      else if opr = ''&='' then Inr (bitAnd (bitAnd bef val) (Num 0xFF))
      else if opr = ''^='' then Inr (bitAnd (bitXor bef val) (Num 0xFF))
      else Inl (UnknownOperator opr))"

text \<open>The \<open>catch\<close> block: \<open>e.message || 'Parse error'\<close>.\<close>

definition failed :: "Error \<Rightarrow> (string \<rightharpoonup> jsval) \<Rightarrow> Step list \<Rightarrow> EvalResult" where
  "failed e states stps =
     \<lparr>success = False, registerStates = states,
      error = Some (if message e = [] then ''Parse error'' else message e),
      steps = stps\<rparr>"

text \<open>
  The loop of \<open>evaluate\<close>; the first argument is the number of iterations that
  \<open>safety < 100\<close> still allows.
\<close>

fun evaluateLoop :: "nat \<Rightarrow> Token list \<Rightarrow> (string \<rightharpoonup> jsval) \<Rightarrow> Step list \<Rightarrow> EvalResult" where
  "evaluateLoop 0 ts states stps =
     \<lparr>success = True, registerStates = states, error = None, steps = stps\<rparr>"
| "evaluateLoop (Suc n) ts states stps =
     (case parseStatement ts of
        Inl e \<Rightarrow> failed e states stps
      | Inr (None, ts') \<Rightarrow>
          if (case ts' of [] \<Rightarrow> False | t # _ \<Rightarrow> type' t = EOF)
          then \<lparr>success = True, registerStates = states, error = None, steps = stps\<rparr>
          else evaluateLoop n ts' states stps
      | Inr (Some (reg, val, opr), ts') \<Rightarrow>
          let bef = nullish (getProperty states reg) (Num 0) in
          case applyOp opr bef val of
            Inl e \<Rightarrow> failed e states stps
          | Inr aft \<Rightarrow>
              evaluateLoop n ts' (setProperty states reg aft)
                (stps @ [\<lparr>register = reg, op = opr, exprValue = val, before = bef, after = aft\<rparr>]))"

definition evaluate :: "string \<Rightarrow> (string \<rightharpoonup> jsval) \<Rightarrow> EvalResult" where
  "evaluate code initialStates = evaluateLoop 100 (tokenize code) initialStates []"

text \<open>The strict equality \<open>===\<close> of two numbers.\<close>

definition strictEq :: "jsval \<Rightarrow> jsval \<Rightarrow> bool" where
  "strictEq a b = (a = b \<and> a \<noteq> NaN)"

text \<open>The fields \<open>error\<close> and \<open>steps\<close> of the answer are \<open>error'\<close> and \<open>steps'\<close> here.\<close>

record CheckResult =
  correct :: bool
  userResult :: "jsval option"
  expected :: jsval
  error' :: "string option"
  steps' :: "Step list"

definition checkAnswer :: "string \<Rightarrow> string \<Rightarrow> int \<Rightarrow> int \<Rightarrow> CheckResult" where
  "checkAnswer userCode targetRegister initialValue expectedValue =
     (let result = evaluate userCode [targetRegister \<mapsto> Num initialValue] in
      if \<not> success result then
        \<lparr>correct = False, userResult = None, expected = Num expectedValue,
         error' = error result, steps' = steps result\<rparr>
      else
        let res = nullish (getProperty (registerStates result) targetRegister) (Num initialValue)
        in \<lparr>correct = strictEq res (Num expectedValue), userResult = Some res,
            expected = Num expectedValue, error' = None, steps' = steps result\<rparr>)"
section \<open>The partial analyzer (expression display)\<close>

text \<open>
  The second source file analyses the text while it is being typed. Its functions work
  on strings, not on tokens.
\<close>

definition toLowerCase :: "string \<Rightarrow> string" where
  "toLowerCase s =
     map (\<lambda>c. let n = (of_char c :: nat) in
               if (65 \<le> n \<and> n \<le> 90) \<or> (192 \<le> n \<and> n \<le> 222 \<and> n \<noteq> 215)
               then char_of (n + 32) else c) s"

definition startsWith :: "string \<Rightarrow> string \<Rightarrow> bool" where
  "startsWith p s = (take (length p) s = p)"

definition endsWith :: "string \<Rightarrow> string \<Rightarrow> bool" where
  "endsWith p s = (length p \<le> length s \<and> drop (length s - length p) s = p)"

text \<open>\<open>s.includes(p)\<close> and \<open>s.indexOf(p)\<close> (\<open>None\<close> for -1).\<close>

fun indexOf :: "string \<Rightarrow> string \<Rightarrow> nat option" where
  "indexOf p [] = (if p = [] then Some 0 else None)"
| "indexOf p (c # cs) =
     (if startsWith p (c # cs) then Some 0 else map_option Suc (indexOf p cs))"

definition includes' :: "string \<Rightarrow> string \<Rightarrow> bool" where
  "includes' p s = (indexOf p s \<noteq> None)"

definition resolveIdentifier :: "string \<Rightarrow> jsval option" where
  "resolveIdentifier name =
     (if hasProperty allNamedBits name then Some (getProperty allNamedBits name) else None)"

definition parseNumberLiteral :: "string \<Rightarrow> jsval option" where
  "parseNumberLiteral s =
     (let cleaned = toLowerCase (trim s) in
      if startsWith ''0x'' cleaned then
        (let v = parseInt cleaned 16 in if isNaN v then None else Some (bitAnd v (Num 0xFF)))
      else if startsWith ''0b'' cleaned then
        (let v = parseInt (drop 2 cleaned) 2 in if isNaN v then None else Some (bitAnd v (Num 0xFF)))
      else if cleaned \<noteq> [] \<and> list_all is_digit cleaned then
        (let v = parseInt cleaned 10 in if isNaN v then None else Some (bitAnd v (Num 0xFF)))
      else None)"

fun isBalancedLoop :: "string \<Rightarrow> int \<Rightarrow> bool" where
  "isBalancedLoop [] depth = (depth = 0)"
| "isBalancedLoop (c # cs) depth =
     (let depth = (if c = CHR ''('' then depth + 1 else depth);
          depth = (if c = CHR '')'' then depth - 1 else depth)
      in if depth < 0 then False else isBalancedLoop cs depth)"

definition isBalanced :: "string \<Rightarrow> bool" where
  "isBalanced s = isBalancedLoop s 0"

text \<open>
  The loop of \<open>splitOnOperator\<close>: the text from position \<open>i\<close> on, the depth, \<open>current\<close> and
  \<open>parts\<close>. \<open>s[i + 1]\<close> past the end is \<open>undefined\<close>, which equals no character.
\<close>

fun splitLoop :: "char \<Rightarrow> string \<Rightarrow> int \<Rightarrow> string \<Rightarrow> string list \<Rightarrow> string list" where
  "splitLoop opc [] depth current parts = (if current \<noteq> [] then parts @ [current] else parts)"
| "splitLoop opc (c # cs) depth current parts =
     (let depth = (if c = CHR ''('' then depth + 1 else depth);
          depth = (if c = CHR '')'' then depth - 1 else depth);
          nxt = (case cs of [] \<Rightarrow> None | d # _ \<Rightarrow> Some d)
      in if depth = 0 \<and> c = opc \<and>
            \<not> (opc = CHR ''&'' \<and> nxt = Some CHR ''='') \<and>
            \<not> (opc = CHR ''|'' \<and> nxt = Some CHR ''='') \<and>
            \<not> (opc = CHR ''^'' \<and> nxt = Some CHR ''='')
         then
           (if opc = CHR ''<'' \<and> nxt = Some CHR ''<'' then splitLoop opc cs depth (current @ [c]) parts
            else if opc = CHR ''>'' \<and> nxt = Some CHR ''>'' then splitLoop opc cs depth (current @ [c]) parts
            else splitLoop opc cs depth [] (parts @ [current]))
         else splitLoop opc cs depth (current @ [c]) parts)"

definition splitOnOperator :: "string \<Rightarrow> char \<Rightarrow> string list" where
  "splitOnOperator s opc = splitLoop opc s 0 [] []"

fun countUnmatchedLoop :: "string \<Rightarrow> int \<Rightarrow> int" where
  "countUnmatchedLoop [] depth = depth"
| "countUnmatchedLoop (c # cs) depth =
     (let depth = (if c = CHR ''('' then depth + 1 else depth);
          depth = (if c = CHR '')'' then max 0 (depth - 1) else depth)
      in countUnmatchedLoop cs depth)"

definition countUnmatchedParens :: "string \<Rightarrow> int" where
  "countUnmatchedParens s = countUnmatchedLoop s 0"

text \<open>\<open>expr.replace(/\s+/g, '')\<close>.\<close>

definition removeWhitespace :: "string \<Rightarrow> string" where
  "removeWhitespace s = filter (\<lambda>c. \<not> is_space c) s"

text \<open>The \<open>while\<close> loop of \<open>safeEval\<close> that removes outer parentheses.\<close>

function removeOuterParens :: "string \<Rightarrow> string" where
  "removeOuterParens s =
     (if startsWith ''('' s \<and> endsWith '')'' s \<and> isBalanced (butlast (tl s))
      then removeOuterParens (butlast (tl s)) else s)"
  by pat_completeness auto
termination
proof (relation "measure length", goal_cases)
  case 1
  show ?case by simp
next
  case (2 s)
  then show ?case by (cases s) (simp_all add: startsWith_def)
qed

declare removeOuterParens.simps [simp del]

text \<open>
  Termination of \<open>safeEval\<close>: when \<open>splitOnOperator\<close> returns more than one part, a
  separator was dropped, so every part is shorter than the text.
\<close>

lemma if_two_results:
  "(if p then (if q then x else if r then x else y) else x) = x \<or>
   (if p then (if q then x else if r then x else y) else x) = y"
  by simp

lemma splitLoop_step:
  "\<exists>d. splitLoop opc (c # cs) depth current parts = splitLoop opc cs d (current @ [c]) parts \<or>
       splitLoop opc (c # cs) depth current parts = splitLoop opc cs d [] (parts @ [current])"
proof -
  let ?d = "if c = CHR '')'' then (if c = CHR ''('' then depth + 1 else depth) - 1
            else (if c = CHR ''('' then depth + 1 else depth)"
  have "splitLoop opc (c # cs) depth current parts = splitLoop opc cs ?d (current @ [c]) parts \<or>
       splitLoop opc (c # cs) depth current parts = splitLoop opc cs ?d [] (parts @ [current])"
    unfolding splitLoop.simps Let_def by (rule if_two_results)
  then show ?thesis by blast
qed

lemma splitLoop_size:
  "sum_list (map length (splitLoop opc s depth current parts)) + length (splitLoop opc s depth current parts)
     \<le> sum_list (map length parts) + length parts + length current + length s + 1"
proof (induction s arbitrary: depth current parts)
  case Nil
  show ?case by simp
next
  case (Cons c cs)
  from splitLoop_step [of opc c cs depth current parts] obtain d where
    "splitLoop opc (c # cs) depth current parts = splitLoop opc cs d (current @ [c]) parts \<or>
     splitLoop opc (c # cs) depth current parts = splitLoop opc cs d [] (parts @ [current])"
    by blast
  then show ?case
  proof
    assume a: "splitLoop opc (c # cs) depth current parts = splitLoop opc cs d (current @ [c]) parts"
    from Cons.IH [of d "current @ [c]" parts] show ?thesis unfolding a by simp
  next
    assume a: "splitLoop opc (c # cs) depth current parts = splitLoop opc cs d [] (parts @ [current])"
    from Cons.IH [of d "[]" "parts @ [current]"] show ?thesis unfolding a by simp
  qed
qed

lemma splitOnOperator_shorter:
  assumes "x \<in> set (splitOnOperator s opc)" and "1 < length (splitOnOperator s opc)"
  shows "length x < length s"
proof -
  let ?R = "splitOnOperator s opc"
  from splitLoop_size [of opc s 0 "[]" "[]"]
  have le: "sum_list (map length ?R) + length ?R \<le> length s + 1"
    by (simp add: splitOnOperator_def)
  from assms(1) have "length x \<le> sum_list (map length ?R)"
    by (simp add: member_le_sum_list)
  with le assms(2) show ?thesis by simp
qed

lemma removeOuterParens_length: "length (removeOuterParens s) \<le> length s"
proof (induction s rule: removeOuterParens.induct)
  case (1 s)
  show ?case
  proof (cases "startsWith ''('' s \<and> endsWith '')'' s \<and> isBalanced (butlast (tl s))")
    case True
    with 1 have "length (removeOuterParens (butlast (tl s))) \<le> length (butlast (tl s))" by blast
    moreover from True have "removeOuterParens s = removeOuterParens (butlast (tl s))"
      by (subst removeOuterParens.simps) simp
    ultimately show ?thesis by simp
  next
    case False
    then have "removeOuterParens s = s"
      by (subst removeOuterParens.simps) (simp only: if_False)
    then show ?thesis by simp
  qed
qed

lemma cleaned_length: "length (removeOuterParens (removeWhitespace expr)) \<le> length expr"
  using removeOuterParens_length [of "removeWhitespace expr"]
  by (simp add: removeWhitespace_def le_trans [OF _ length_filter_le])

lemma indexOf_bound: "indexOf p s = Some i \<Longrightarrow> i + length p \<le> length s"
proof (induction s arbitrary: i)
  case Nil
  then show ?case by (simp split: if_splits)
next
  case (Cons c cs)
  show ?case
  proof (cases "startsWith p (c # cs)")
    case True
    with Cons.prems have "i = 0" by simp
    moreover from True have "length p = length (take (length p) (c # cs))"
      by (simp add: startsWith_def)
    then have "length p \<le> length (c # cs)" by simp
    ultimately show ?thesis by simp
  next
    case False
    with Cons.prems obtain j where "indexOf p cs = Some j" "i = Suc j" by auto
    with Cons.IH [of j] show ?thesis by simp
  qed
qed

text \<open>
  \<open>safeEval\<close>. Each \<open>for\<close> loop returns \<open>null\<close> at the first part that evaluates to
  \<open>null\<close>: \<open>those\<close> gives \<open>None\<close> exactly then.
\<close>

function safeEval :: "string \<Rightarrow> jsval option" where
  "safeEval expr =
     (let s = removeOuterParens (removeWhitespace expr) in
      if 1 < length (splitOnOperator s CHR ''|'') then
        (case those (map safeEval (splitOnOperator s CHR ''|'')) of
           None \<Rightarrow> None
         | Some vals \<Rightarrow> Some (bitAnd (foldl bitOr (Num 0) vals) (Num 0xFF)))
      else if 1 < length (splitOnOperator s CHR ''&'') then
        (case those (map safeEval (splitOnOperator s CHR ''&'')) of
           None \<Rightarrow> None
         | Some vals \<Rightarrow> Some (bitAnd (foldl bitAnd (Num 0xFF) vals) (Num 0xFF)))
      else if 1 < length (splitOnOperator s CHR ''^'') then
        (case those (map safeEval (splitOnOperator s CHR ''^'')) of
           None \<Rightarrow> None
         | Some vals \<Rightarrow> Some (bitAnd (foldl bitXor (hd vals) (tl vals)) (Num 0xFF)))
      else if startsWith ''~'' s then
        (case safeEval (drop 1 s) of
           None \<Rightarrow> None
         | Some val \<Rightarrow> Some (bitAnd (bitNot val) (Num 0xFF)))
      else
        case indexOf ''<<'' s of
          Some i \<Rightarrow>
            (case (safeEval (take i s), safeEval (drop (i + 2) s)) of
               (Some left, Some right) \<Rightarrow> Some (bitAnd (shl left right) (Num 0xFF))
             | _ \<Rightarrow> None)
        | None \<Rightarrow>
            (case indexOf ''>>'' s of
               Some i \<Rightarrow>
                 (case (safeEval (take i s), safeEval (drop (i + 2) s)) of
                    (Some left, Some right) \<Rightarrow> Some (bitAnd (sar left right) (Num 0xFF))
                  | _ \<Rightarrow> None)
             | None \<Rightarrow>
                 (case parseNumberLiteral s of
                    Some num \<Rightarrow> Some num
                  | None \<Rightarrow>
                      if hasProperty allNamedBits s then Some (getProperty allNamedBits s)
                      else None)))"
  by pat_completeness auto
termination
proof (relation "measure length", goal_cases)
  case 1
  show ?case by simp
next
  case (2 expr s x)
  with splitOnOperator_shorter [of x s "CHR ''|''"] cleaned_length [of expr] show ?case by simp
next
  case (3 expr s x)
  with splitOnOperator_shorter [of x s "CHR ''&''"] cleaned_length [of expr] show ?case by simp
next
  case (4 expr s x)
  with splitOnOperator_shorter [of x s "CHR ''^''"] cleaned_length [of expr] show ?case by simp
next
  case (5 expr s)
  then have "s \<noteq> []" by (auto simp: startsWith_def)
  then have "length (drop 1 s) < length s" by simp
  moreover have "length s \<le> length expr" using 5 cleaned_length [of expr] by simp
  ultimately show ?case by simp
next
  case (6 expr s i)
  with indexOf_bound [of "''<<''" s i] indexOf_bound [of "''>>''" s i] cleaned_length [of expr]
  show ?case by simp
next
  case (7 expr s i)
  with indexOf_bound [of "''<<''" s i] indexOf_bound [of "''>>''" s i] cleaned_length [of expr]
  show ?case by simp
next
  case (8 expr s i)
  with indexOf_bound [of "''<<''" s i] indexOf_bound [of "''>>''" s i] cleaned_length [of expr]
  show ?case by simp
next
  case (9 expr s i)
  with indexOf_bound [of "''<<''" s i] indexOf_bound [of "''>>''" s i] cleaned_length [of expr]
  show ?case by simp
qed

declare safeEval.simps [simp del]

definition tryEvaluatePartial :: "string \<Rightarrow> jsval option" where
  "tryEvaluatePartial expr =
     (let trimmed = trim expr in
      if trimmed = [] then None
      else
        case parseNumberLiteral trimmed of
          Some num \<Rightarrow> Some num
        | None \<Rightarrow>
            (case resolveIdentifier trimmed of
               Some resolved \<Rightarrow> Some resolved
             | None \<Rightarrow> safeEval trimmed))"

text \<open>
  The breakdown. The display strings of the source (\<open>text\<close>, \<open>label\<close>, \<open>description\<close>) are
  left out of the records: no branch of the program reads them back. A part keeps its
  type and its \<open>binaryValue\<close> (\<open>None\<close> when the field is absent).
\<close>

datatype PartType = Register | Operator | Value | Paren | Shadow | ShiftOp | Separator

record ExpressionPart =
  ptype :: PartType
  binaryValue :: "jsval option"

record ExpressionBreakdown =
  parts :: "ExpressionPart list"
  resultPreview :: "jsval option"
  registerName :: "string option"
  operator :: "string option"
  operandValue :: "jsval option"

definition part :: "PartType \<Rightarrow> jsval option \<Rightarrow> ExpressionPart" where
  "part ty v = \<lparr>ptype = ty, binaryValue = v\<rparr>"

text \<open>
  The match of \<open>/^\(?(\d+)\s*<<\s*(\w+)\)?$/\<close>: the two groups, or \<open>None\<close>. Each
  quantifier can match in one way only, so the match is read off from left to right.
\<close>

definition matchShift :: "string \<Rightarrow> (string \<times> string) option" where
  "matchShift rhs =
     (let r0 = (if startsWith ''('' rhs then drop 1 rhs else rhs);
          digits = takeWhile is_digit r0;
          r1 = dropWhile is_space (dropWhile is_digit r0);
          r2 = dropWhile is_space (drop 2 r1);
          word = takeWhile is_ident_char r2;
          r3 = dropWhile is_ident_char r2
      in if digits \<noteq> [] \<and> startsWith ''<<'' r1 \<and> word \<noteq> [] \<and> (r3 = [] \<or> r3 = '')'')
         then Some (digits, word) else None)"

text \<open>
  \<open>buildRhsParts\<close> calls itself on pieces of its argument, and a piece can be the whole
  argument again. The first argument bounds the depth of the calls: \<open>None\<close> is the
  \<open>RangeError\<close> of a call stack that is exhausted.
\<close>

fun buildRhsParts :: "nat \<Rightarrow> string \<Rightarrow> ExpressionPart list option" where
  "buildRhsParts 0 rhs = None"
| "buildRhsParts (Suc n) rhs =
     (case matchShift rhs of
        Some (digits, shiftBy) \<Rightarrow>
          (let base = parseInt digits 10;
               shiftNum = (case parseNumberLiteral shiftBy of
                             Some v \<Rightarrow> Some v
                           | None \<Rightarrow> resolveIdentifier shiftBy);
               evaluated = map_option (\<lambda>k. bitAnd (shl base k) (Num 0xFF)) shiftNum
           in Some
                ([part Paren None, part Value (Some (bitAnd base (Num 0xFF))), part ShiftOp None,
                  part Value shiftNum] @
                 (if endsWith '')'' rhs \<or> endsWith '');'' rhs then [part Paren None] else []) @
                 (case evaluated of
                    Some v \<Rightarrow> [part Separator (Some v)]
                  | None \<Rightarrow> [])))
      | None \<Rightarrow>
          if startsWith ''~'' rhs then
            (case buildRhsParts n (drop 1 rhs) of
               None \<Rightarrow> None
             | Some innerParts \<Rightarrow> Some (part Operator None # innerParts))
          else if includes' ''|'' rhs \<and> includes' ''<<'' rhs then
            (let r0 = (if startsWith ''('' rhs then drop 1 rhs else rhs);
                 r1 = (if endsWith '')'' r0 then butlast r0 else r0);
                 orSegments = splitOnOperator r1 CHR ''|''
             in case those (map (\<lambda>seg. buildRhsParts n (trim seg)) orSegments) of
                  None \<Rightarrow> None
                | Some segParts \<Rightarrow>
                    Some (concat (map (\<lambda>(i, ps). if 0 < i then part Operator None # ps else ps)
                                   (enumerate 0 segParts))))
          else
            Some [part Value (tryEvaluatePartial rhs)])"

text \<open>
  \<open>parseExpression\<close> of the analyzer (named \<open>parseExpression_display\<close> here, the parser
  has a method of the same name). \<open>None\<close> is an exception that leaves the function.
\<close>

definition matchRegister :: "string \<Rightarrow> string option" where
  "matchRegister s =
     (case s of
        [] \<Rightarrow> None
      | c # cs \<Rightarrow>
          if is_upper c
          then Some (c # takeWhile (\<lambda>d. is_upper d \<or> is_digit d \<or> d = CHR ''_'') cs)
          else None)"

definition matchOperator :: "string \<Rightarrow> string option" where
  "matchOperator s =
     (if startsWith ''|='' s then Some ''|=''
      else if startsWith ''&='' s then Some ''&=''
      else if startsWith ''^='' s then Some ''^=''
      else if startsWith ''='' s then Some ''=''
      else None)"

definition preview :: "string \<Rightarrow> jsval \<Rightarrow> jsval \<Rightarrow> jsval option" where
  "preview opr initialValue operand =
     (if opr = ''='' then Some (bitAnd operand (Num 0xFF))
      else if opr = ''|='' then Some (bitAnd (bitOr initialValue operand) (Num 0xFF))
      else if opr = ''&='' then Some (bitAnd (bitAnd initialValue operand) (Num 0xFF))
      else if opr = ''^='' then Some (bitAnd (bitXor initialValue operand) (Num 0xFF))
      else None)"

definition parseExpression_display ::
  "nat \<Rightarrow> string \<Rightarrow> string \<Rightarrow> jsval \<Rightarrow> ExpressionBreakdown option" where
  "parseExpression_display fuel input registerName' initialValue =
     (let trimmed = trim input in
      if trimmed = [] then
        Some \<lparr>parts = [], resultPreview = None, registerName = None, operator = None,
              operandValue = None\<rparr>
      else
        case matchRegister trimmed of
          None \<Rightarrow>
            Some \<lparr>parts = [part Value None], resultPreview = None, registerName = None,
                  operator = None, operandValue = None\<rparr>
        | Some foundRegister \<Rightarrow>
            let afterReg = trim (drop (length foundRegister) trimmed) in
            if afterReg = [] then
              Some \<lparr>parts = [part Register (Some initialValue)],
                    resultPreview = Some initialValue, registerName = Some foundRegister,
                    operator = None, operandValue = None\<rparr>
            else
              case matchOperator afterReg of
                None \<Rightarrow>
                  Some \<lparr>parts = [part Register (Some initialValue), part Operator None],
                        resultPreview = None, registerName = Some foundRegister,
                        operator = None, operandValue = None\<rparr>
              | Some opr \<Rightarrow>
                  let afterOp = trim (drop (length opr) afterReg) in
                  if afterOp = [] then
                    Some \<lparr>parts = [part Register (Some initialValue), part Operator None],
                          resultPreview = None, registerName = Some foundRegister,
                          operator = Some opr, operandValue = None\<rparr>
                  else
                    let rhsClean = trim (if endsWith '';'' afterOp then butlast afterOp else afterOp);
                        operand = tryEvaluatePartial rhsClean
                    in case buildRhsParts fuel rhsClean of
                         None \<Rightarrow> None
                       | Some rhsParts \<Rightarrow>
                           Some \<lparr>parts =
                                   [part Register (Some initialValue), part Operator None] @ rhsParts @
                                   (if 0 < countUnmatchedParens rhsClean then [part Shadow None] else []),
                                 resultPreview =
                                   (case operand of
                                      None \<Rightarrow> None
                                    | Some v \<Rightarrow> preview opr initialValue v),
                                 registerName = Some foundRegister, operator = Some opr,
                                 operandValue = operand\<rparr>)"

section \<open>Notions used to state the claims\<close>

definition is_identifier :: "string \<Rightarrow> bool" where
  "is_identifier s = (s \<noteq> [] \<and> is_ident_start (hd s) \<and> list_all is_ident_char (tl s))"

fun decimal :: "nat \<Rightarrow> string" where
  "decimal n = (if n < 10 then [digitChar n] else decimal (n div 10) @ [digitChar (n mod 10)])"

declare decimal.simps [simp del]

definition shiftLeftStatement :: "nat \<Rightarrow> nat \<Rightarrow> string" where
  "shiftLeftStatement a k = ''X = '' @ decimal a @ '' << '' @ decimal k @ '';''"

definition shiftRightStatement :: "nat \<Rightarrow> nat \<Rightarrow> string" where
  "shiftRightStatement a k = ''X = '' @ decimal a @ '' >> '' @ decimal k @ '';''"

text \<open>
  A register state updated by a list of steps: every step stores its \<open>after\<close> value under its
  register name, in order. This is an update of the mapping, whatever the name is.
\<close>

definition replay :: "(string \<rightharpoonup> jsval) \<Rightarrow> Step list \<Rightarrow> (string \<rightharpoonup> jsval)" where
  "replay init stps = foldl (\<lambda>st s. st(register s \<mapsto> after s)) init stps"

definition orStatement :: "string \<Rightarrow> nat \<Rightarrow> string" where
  "orStatement X k = X @ '' |= (1<<'' @ decimal k @ '');''"

definition twice :: "string \<Rightarrow> string" where
  "twice s = s @ '' '' @ s"

definition xorStatement :: "string \<Rightarrow> nat \<Rightarrow> string" where
  "xorStatement X k = X @ '' ^= (1<<'' @ decimal k @ '');''"


text \<open>
  The value the strict evaluator gives to a text \<open>e\<close> as the right-hand side of an
  assignment: the statement \<open>X = e;\<close> is tokenized and parsed, and the value is that of
  the statement when it is the whole text. \<open>xorAndText a b c\<close> is the text \<open>a^b&c\<close> with
  the three numbers written in decimal.
\<close>

definition rhsValue :: "string \<Rightarrow> jsval option" where
  "rhsValue e =
     (case parseStatement (tokenize (''X = '' @ e @ '';'')) of
        Inr (Some (reg, v, opr), ts) \<Rightarrow> if ts = [tok EOF ''''] then Some v else None
      | _ \<Rightarrow> None)"

section \<open>Auxiliary lemmas\<close>

lemma toInt32_small: "- (2 ^ 31) \<le> n \<Longrightarrow> n < 2 ^ 31 \<Longrightarrow> toInt32 (Num n) = n"
  by (simp add: toInt32_def signed_take_bit_int_eq_self)

lemma bitAnd_255: "bitAnd x (Num 255) = Num (toInt32 x mod 256)"
proof -
  have "and (toInt32 x) 255 = take_bit 8 (toInt32 x)"
    by (simp add: take_bit_eq_mask mask_eq_exp_minus_1)
  moreover have "toInt32 (Num 255) = 255" by (simp add: toInt32_small)
  ultimately show ?thesis by (simp add: bitAnd_def take_bit_eq_mod)
qed

lemma stb_mod_256: "signed_take_bit 31 (n::int) mod 256 = n mod 256"
proof -
  have "take_bit 8 (signed_take_bit 31 n) = take_bit 8 n"
    by (simp add: take_bit_signed_take_bit)
  then show ?thesis by (simp add: take_bit_eq_mod)
qed

lemma toInt32_mod_256: "toInt32 (Num n) mod 256 = n mod 256"
  by (simp add: toInt32_def stb_mod_256)

lemma shift_count: "0 \<le> k \<Longrightarrow> nat (and (toInt32 (Num k)) 31) = nat k mod 32"
proof -
  assume k: "0 \<le> k"
  have "and (toInt32 (Num k)) 31 = take_bit 5 (signed_take_bit 31 k)"
    by (simp add: toInt32_def take_bit_eq_mask mask_eq_exp_minus_1)
  also have "\<dots> = take_bit 5 k" by (simp add: take_bit_signed_take_bit)
  also have "\<dots> = k mod 32" by (simp add: take_bit_eq_mod)
  finally show ?thesis using k by (simp add: nat_mod_distrib)
qed

lemma shl_byte:
  assumes "0 \<le> k"
  shows "bitAnd (shl (Num a) (Num k)) (Num 255) = Num ((a * 2 ^ (nat k mod 32)) mod 256)"
proof -
  have "toInt32 (shl (Num a) (Num k)) mod 256 = (push_bit (nat k mod 32) (toInt32 (Num a))) mod 256"
    by (simp add: shl_def toInt32_mod_256 stb_mod_256 shift_count assms)
  also have "\<dots> = (toInt32 (Num a) * 2 ^ (nat k mod 32)) mod 256"
    by (simp add: push_bit_eq_mult)
  also have "\<dots> = ((toInt32 (Num a) mod 256) * 2 ^ (nat k mod 32)) mod 256"
    by (simp add: mod_mult_left_eq)
  also have "\<dots> = (a * 2 ^ (nat k mod 32)) mod 256"
    by (simp add: toInt32_mod_256 mod_mult_left_eq)
  finally show ?thesis by (simp add: bitAnd_255)
qed

lemma sar_byte:
  assumes "0 \<le> k" "0 \<le> a" "a < 256"
  shows "bitAnd (sar (Num a) (Num k)) (Num 255) = Num (a div 2 ^ (nat k mod 32))"
proof -
  have a32: "toInt32 (Num a) = a" using assms by (simp add: toInt32_small)
  have "a div 2 ^ (nat k mod 32) \<le> a div 1"
    using assms by (intro zdiv_mono2) simp_all
  then have d: "0 \<le> a div 2 ^ (nat k mod 32)" "a div 2 ^ (nat k mod 32) < 256"
    using assms by (simp_all add: pos_imp_zdiv_nonneg_iff)
  have "toInt32 (sar (Num a) (Num k)) mod 256 = (a div 2 ^ (nat k mod 32)) mod 256"
    by (simp add: sar_def toInt32_mod_256 shift_count assms a32 drop_bit_eq_div)
  with d show ?thesis by (simp add: bitAnd_255)
qed

lemma scan_space: "is_space c \<Longrightarrow> scan (c # cs) = scan cs"
  by (simp add: scan.simps)

lemma look2_None:
  "c \<notin> set ''|&^<>'' \<Longrightarrow> (case cs of d # _ \<Rightarrow> twoCharOp c d | [] \<Rightarrow> None) = None"
  by (cases cs) (auto simp: twoCharOp_def)

lemma letters_plain:
  "list_all (\<lambda>c. \<not> is_space c \<and> c \<noteq> CHR '';'' \<and> c \<notin> set ''|&^<>'' \<and> oneCharOp c = None \<and>
                  \<not> is_digit c \<and> is_ident_char c)
     ''abcdefghijklmnopqrstuvwxyzABCDEFGHIJKLMNOPQRSTUVWXYZ_''"
  by code_simp

lemma digits_plain:
  "list_all (\<lambda>c. \<not> is_space c \<and> c \<noteq> CHR '';'' \<and> c \<notin> set ''|&^<>'' \<and> oneCharOp c = None \<and>
                  c \<notin> set ''xXbB'' \<and> is_ident_char c \<and> \<not> is_ident_start c)
     ''0123456789''"
  by code_simp

lemma ident_start_facts:
  assumes "is_ident_start c"
  shows "\<not> is_space c" "c \<noteq> CHR '';''" "c \<notin> set ''|&^<>''" "oneCharOp c = None"
    "\<not> is_digit c" "is_ident_char c"
proof -
  from assms have "c \<in> set ''abcdefghijklmnopqrstuvwxyzABCDEFGHIJKLMNOPQRSTUVWXYZ_''"
    unfolding is_ident_start_def .
  with letters_plain show "\<not> is_space c" "c \<noteq> CHR '';''" "c \<notin> set ''|&^<>''" "oneCharOp c = None"
    "\<not> is_digit c" "is_ident_char c"
    unfolding list_all_iff by blast+
qed

lemma digit_facts:
  assumes "is_digit c"
  shows "\<not> is_space c" "c \<noteq> CHR '';''" "c \<notin> set ''|&^<>''" "oneCharOp c = None"
    "c \<notin> set ''xXbB''" "is_ident_char c" "\<not> is_ident_start c"
proof -
  from assms have "c \<in> set ''0123456789''"
    unfolding is_digit_def .
  with digits_plain show "\<not> is_space c" "c \<noteq> CHR '';''" "c \<notin> set ''|&^<>''" "oneCharOp c = None"
    "c \<notin> set ''xXbB''" "is_ident_char c" "\<not> is_ident_start c"
    unfolding list_all_iff by blast+
qed

lemma scan_ident_start:
  assumes "is_ident_start c"
  shows "scan (c # cs) =
           tok IDENTIFIER (c # takeWhile is_ident_char cs) # scan (dropWhile is_ident_char cs)"
  using ident_start_facts [OF assms] assms
  by (simp add: scan.simps(2) look2_None del: set_simps)

lemma scan_identifier:
  assumes "is_identifier R" "\<not> is_ident_char d"
  shows "scan (R @ d # rest) = tok IDENTIFIER R # scan (d # rest)"
proof -
  from assms(1) obtain c cs where R: "R = c # cs" and c: "is_ident_start c"
    and cs: "list_all is_ident_char cs"
    by (cases R) (auto simp: is_identifier_def)
  from cs assms(2) have "takeWhile is_ident_char (cs @ d # rest) = cs"
    and "dropWhile is_ident_char (cs @ d # rest) = d # rest"
    by (simp_all add: list_all_iff takeWhile_tail)
  with scan_ident_start [OF c, of "cs @ d # rest"] R show ?thesis by simp
qed

lemma scan_decimal:
  assumes "ds \<noteq> []" "list_all is_digit ds" "\<not> is_digit d"
    and "d \<notin> set ''xXbB''"
  shows "scan (ds @ d # rest) = numTok ds (bitAnd (parseInt ds 10) (Num 255)) # scan (d # rest)"
proof -
  from assms(1,2) obtain c cs where ds: "ds = c # cs" and c: "is_digit c"
    and cs: "list_all is_digit cs"
    by (cases ds) auto
  from cs assms(3) have tw: "takeWhile is_digit (cs @ d # rest) = cs"
    and dw: "dropWhile is_digit (cs @ d # rest) = d # rest"
    by (simp_all add: list_all_iff takeWhile_tail)
  have hd: "hd (cs @ d # rest) \<notin> set ''xXbB''"
  proof (cases cs)
    case Nil
    with assms(4) show ?thesis by simp
  next
    case (Cons e es)
    with cs have "is_digit e" by simp
    from digit_facts(5) [OF this] Cons show ?thesis by simp
  qed
  then have hd': "hd (cs @ d # rest) \<noteq> CHR ''x''" "hd (cs @ d # rest) \<noteq> CHR ''X''"
    "hd (cs @ d # rest) \<noteq> CHR ''b''" "hd (cs @ d # rest) \<noteq> CHR ''B''"
    by auto
  show ?thesis
    unfolding ds
    using digit_facts(1-4) [OF c] c tw dw hd'
    by (simp add: scan.simps(2) look2_None Let_def del: set_simps)
qed

lemma trim_id:
  assumes "s \<noteq> []" "\<not> is_space (hd s)" "\<not> is_space (last s)"
  shows "trim s = s"
proof (cases s rule: rev_cases)
  case Nil
  with assms(1) show ?thesis by simp
next
  case (snoc xs x)
  from assms(1,2) have a: "dropWhile is_space s = s" by (cases s) auto
  from snoc assms(3) have "dropWhile is_space (rev s) = rev s" by simp
  with a show ?thesis by (simp add: trim_def)
qed

lemma digitChar_facts:
  assumes "d < 10"
  shows "is_digit (digitChar d)" "digitValue (digitChar d) = d"
proof -
  have "list_all (\<lambda>d. is_digit (digitChar d) \<and> digitValue (digitChar d) = d) [0..<10]"
    by code_simp
  moreover from assms have "d \<in> set [0..<10]" by simp
  ultimately show "is_digit (digitChar d)" "digitValue (digitChar d) = d"
    unfolding list_all_iff by blast+
qed

lemma digit_value: "is_digit c \<Longrightarrow> digitValue c < 10"
proof -
  have "list_all (\<lambda>c. digitValue c < 10) ''0123456789''" by code_simp
  then show "is_digit c \<Longrightarrow> digitValue c < 10"
    unfolding list_all_iff is_digit_def by blast
qed

lemma decimal_digits: "decimal n \<noteq> [] \<and> list_all is_digit (decimal n)"
proof (induction n rule: decimal.induct)
  case (1 n)
  show ?case
  proof (cases "n < 10")
    case True
    then show ?thesis by (simp add: decimal.simps [of n] digitChar_facts)
  next
    case False
    with 1 show ?thesis by (simp add: decimal.simps [of n] digitChar_facts)
  qed
qed

lemma decimal_value: "foldl (\<lambda>a c. a * 10 + int (digitValue c)) 0 (decimal n) = int n"
proof (induction n rule: decimal.induct)
  case (1 n)
  show ?case
  proof (cases "n < 10")
    case True
    then show ?thesis by (simp add: decimal.simps [of n] digitChar_facts)
  next
    case False
    with 1 have "foldl (\<lambda>a c. a * 10 + int (digitValue c)) 0 (decimal n) =
        int (n div 10) * 10 + int (n mod 10)"
      by (simp add: decimal.simps [of n] digitChar_facts)
    also have "\<dots> = int n" by presburger
    finally show ?thesis .
  qed
qed

lemma parseInt_decimal:
  assumes "n < 2 ^ 53"
  shows "parseInt (decimal n) 10 = Num (int n)"
proof -
  obtain c cs where d: "decimal n = c # cs" and c: "is_digit c" and cs: "list_all is_digit cs"
    using decimal_digits [of n] by (cases "decimal n") auto
  from c have c': "\<not> is_space c" "c \<noteq> CHR ''-''" "c \<noteq> CHR ''+''"
    by (auto simp: is_digit_def is_space_def)
  from c cs have all: "\<forall>x\<in>set (c # cs). digitValue x < 10"
    by (auto simp: list_all_iff digit_value)
  then have tw: "takeWhile (\<lambda>c. digitValue c < 10) (c # cs) = c # cs"
    by (subst takeWhile_eq_all_conv [THEN iffD2]) auto
  have "foldl (\<lambda>a c. a * 10 + int (digitValue c)) 0 (c # cs) = int n"
    using decimal_value [of n] d by simp
  moreover have "toNumber (int n) = Num (int n)"
    using assms by (simp add: toNumber_def) 
  ultimately show ?thesis
    unfolding d parseInt_def using c' tw by (simp add: Let_def)
qed

lemma scan_decimal_byte:
  assumes "n < 256" "\<not> is_digit d" "d \<notin> set ''xXbB''"
  shows "scan (decimal n @ d # rest) = numTok (decimal n) (Num (int n)) # scan (d # rest)"
proof -
  from assms(1) have "parseInt (decimal n) 10 = Num (int n)"
    by (intro parseInt_decimal) simp
  moreover have "bitAnd (Num (int n)) (Num 255) = Num (int n)"
    using assms(1) by (simp add: bitAnd_255 toInt32_mod_256)
  ultimately show ?thesis
    using scan_decimal [of "decimal n" d rest] decimal_digits [of n] assms by simp
qed

lemmas parser_simps = parseExpression.simps parseOr.simps parseOrLoop.simps parseXor.simps
  parseXorLoop.simps parseAnd.simps parseAndLoop.simps parseShift.simps parseShiftLoop.simps
  parseUnary.simps parsePrimary.simps peek_def advance_def expect_def tok_def numTok_def
  parseStatement_def Let_def

lemma evaluateLoop_numeral:
  "evaluateLoop (numeral n) ts st stps = evaluateLoop (Suc (pred_numeral n)) ts st stps"
  by (simp add: numeral_eq_Suc)

lemma scan_simple:
  "scan (CHR '' '' # cs) = scan cs"
  "scan (CHR '';'' # cs) = tok SEMICOLON '';'' # scan cs"
  "scan (CHR ''='' # CHR '' '' # cs) = tok ASSIGN ''='' # scan cs"
  "scan (CHR ''<'' # CHR ''<'' # cs) = tok LSHIFT ''<<'' # scan cs"
  "scan (CHR ''>'' # CHR ''>'' # cs) = tok RSHIFT ''>>'' # scan cs"
  "scan [] = []"
  by (simp_all add: scan.simps is_space_def twoCharOp_def oneCharOp_def)

lemma tokenize_shiftLeft:
  assumes "a < 256" "k < 256"
  shows "tokenize (shiftLeftStatement a k) =
     [tok IDENTIFIER ''X'', tok ASSIGN ''='', numTok (decimal a) (Num (int a)), tok LSHIFT ''<<'',
      numTok (decimal k) (Num (int k)), tok SEMICOLON '';'', tok EOF '''']"
proof -
  have "trim (shiftLeftStatement a k) = shiftLeftStatement a k"
    by (rule trim_id) (simp_all add: shiftLeftStatement_def is_space_def)
  moreover have "scan (''X'' @ CHR '' '' # rest) = tok IDENTIFIER ''X'' # scan (CHR '' '' # rest)" for rest
    by (rule scan_identifier) (simp_all add: is_identifier_def is_ident_start_def is_ident_char_def)
  ultimately show ?thesis
    using assms
    by (simp add: tokenize_def shiftLeftStatement_def scan_simple scan_decimal_byte is_digit_def)
qed

lemma parseStatement_EOF: "parseStatement (tok EOF [] # rest) = Inr (None, tok EOF [] # rest)"
  by (simp add: parseStatement_def peek_def tok_def)

lemma evaluateLoop_done:
  "evaluateLoop (Suc n) (tok EOF [] # rest) st stps =
     \<lparr>success = True, registerStates = st, error = None, steps = stps\<rparr>"
  by (simp add: parseStatement_EOF) (simp add: tok_def)

lemma evaluateLoop_statement:
  assumes "parseStatement ts = Inr (Some (reg, val, opr), ts')"
    and "applyOp opr (nullish (getProperty st reg) (Num 0)) val = Inr aft"
  shows "evaluateLoop (Suc n) ts st stps =
     evaluateLoop n ts' (setProperty st reg aft)
       (stps @ [\<lparr>register = reg, op = opr, exprValue = val,
                 before = nullish (getProperty st reg) (Num 0), after = aft\<rparr>])"
  using assms by (simp add: Let_def)

lemma parse_shiftLeft_tokens:
  "parseStatement [tok IDENTIFIER ''X'', tok ASSIGN ''='', numTok sa (Num a), tok LSHIFT ''<<'',
      numTok sk (Num k), tok SEMICOLON '';'', tok EOF ''''] =
   Inr (Some (''X'', bitAnd (shl (Num a) (Num k)) (Num 255), ''=''), [tok EOF ''''])"
  by (simp add: parser_simps)

lemma tokenize_shiftRight:
  assumes "a < 256" "k < 256"
  shows "tokenize (shiftRightStatement a k) =
     [tok IDENTIFIER ''X'', tok ASSIGN ''='', numTok (decimal a) (Num (int a)), tok RSHIFT ''>>'',
      numTok (decimal k) (Num (int k)), tok SEMICOLON '';'', tok EOF '''']"
proof -
  have "trim (shiftRightStatement a k) = shiftRightStatement a k"
    by (rule trim_id) (simp_all add: shiftRightStatement_def is_space_def)
  moreover have "scan (''X'' @ CHR '' '' # rest) = tok IDENTIFIER ''X'' # scan (CHR '' '' # rest)" for rest
    by (rule scan_identifier) (simp_all add: is_identifier_def is_ident_start_def is_ident_char_def)
  ultimately show ?thesis
    using assms
    by (simp add: tokenize_def shiftRightStatement_def scan_simple scan_decimal_byte is_digit_def)
qed

lemma parse_shiftRight_tokens:
  "parseStatement [tok IDENTIFIER ''X'', tok ASSIGN ''='', numTok sa (Num a), tok RSHIFT ''>>'',
      numTok sk (Num k), tok SEMICOLON '';'', tok EOF ''''] =
   Inr (Some (''X'', bitAnd (sar (Num a) (Num k)) (Num 255), ''=''), [tok EOF ''''])"
  by (simp add: parser_simps)

declare evaluateLoop.simps [simp del]

lemma evaluate_single:
  assumes "parseStatement (tokenize code) = Inr (Some (reg, val, opr), tok EOF [] # rest)"
    and "applyOp opr (nullish (getProperty init reg) (Num 0)) val = Inr aft"
  shows "evaluate code init =
     \<lparr>success = True, registerStates = setProperty init reg aft, error = None,
      steps = [\<lparr>register = reg, op = opr, exprValue = val,
                before = nullish (getProperty init reg) (Num 0), after = aft\<rparr>]\<rparr>"
proof -
  have "evaluate code init = evaluateLoop (Suc (Suc 98)) (tokenize code) init []"
    by (simp add: evaluate_def)
  also note evaluateLoop_statement [OF assms]
  also note evaluateLoop_done
  finally show ?thesis by simp
qed

lemma evaluate_assign_X:
  assumes "parseStatement (tokenize code) = Inr (Some (''X'', Num v, ''=''), [tok EOF ''''])"
    and "0 \<le> v" "v < 256"
  shows "success (evaluate code init) \<and> registerStates (evaluate code init) ''X'' = Some (Num v)"
proof -
  have "applyOp ''='' (nullish (getProperty init ''X'') (Num 0)) (Num v) = Inr (Num v)"
    using assms(2,3) by (simp add: applyOp_def bitAnd_255 toInt32_mod_256)
  from evaluate_single [OF assms(1) this]
  show ?thesis by (simp add: setProperty_def)
qed

lemma message_nonempty: "message e \<noteq> []"
  by (cases e) (simp_all add: message_def)

lemma failed_fields:
  "success (failed e st stps) = False"
  "registerStates (failed e st stps) = st"
  "steps (failed e st stps) = stps"
  "error (failed e st stps) = Some (message e)"
  by (simp_all add: failed_def message_nonempty)

lemma evaluateLoop_steps:
  "\<exists>new. steps (evaluateLoop n ts st stps) = stps @ new \<and>
         registerStates (evaluateLoop n ts st stps) =
           foldl (\<lambda>st s. setProperty st (register s) (after s)) st new"
proof (induction n arbitrary: ts st stps)
  case 0
  show ?case by (simp add: evaluateLoop.simps)
next
  case (Suc n)
  show ?case
  proof (cases "parseStatement ts")
    case (Inl e)
    then show ?thesis by (simp add: evaluateLoop.simps failed_fields)
  next
    case (Inr p)
    obtain stmt ts' where p: "p = (stmt, ts')" by (cases p)
    show ?thesis
    proof (cases stmt)
      case None
      with Inr p Suc.IH [of ts' st stps] show ?thesis
        by (simp add: evaluateLoop.simps)
    next
      case (Some s)
      obtain reg val opr where s: "s = (reg, val, opr)" by (cases s)
      show ?thesis
      proof (cases "applyOp opr (nullish (getProperty st reg) (Num 0)) val")
        case (Inl e)
        with Inr p Some s show ?thesis
          by (simp add: evaluateLoop.simps failed_fields Let_def)
      next
        case (Inr aft)
        let ?step = "\<lparr>register = reg, op = opr, exprValue = val,
                       before = nullish (getProperty st reg) (Num 0), after = aft\<rparr>"
        from Suc.IH [of ts' "setProperty st reg aft" "stps @ [?step]"]
        obtain new where
          a: "steps (evaluateLoop n ts' (setProperty st reg aft) (stps @ [?step])) = (stps @ [?step]) @ new"
          and b: "registerStates (evaluateLoop n ts' (setProperty st reg aft) (stps @ [?step])) =
                  foldl (\<lambda>st s. setProperty st (register s) (after s)) (setProperty st reg aft) new"
          by blast
        have "evaluateLoop (Suc n) ts st stps =
              evaluateLoop n ts' (setProperty st reg aft) (stps @ [?step])"
          using \<open>parseStatement ts = Inr p\<close> p Some s Inr
          by (simp add: evaluateLoop.simps Let_def)
        with a b show ?thesis
          by (intro exI [of _ "?step # new"]) simp
      qed
    qed
  qed
qed

lemma evaluateLoop_error:
  "\<not> success (evaluateLoop n ts st stps) \<Longrightarrow>
     \<exists>e. error (evaluateLoop n ts st stps) = Some (message e)"
proof (induction n arbitrary: ts st stps)
  case 0
  then show ?case by (simp add: evaluateLoop.simps)
next
  case (Suc n)
  show ?case
  proof (cases "parseStatement ts")
    case (Inl e)
    then show ?thesis by (auto simp: evaluateLoop.simps failed_fields)
  next
    case (Inr p)
    obtain stmt ts' where p: "p = (stmt, ts')" by (cases p)
    show ?thesis
    proof (cases stmt)
      case None
      with Inr p Suc.IH [of ts' st stps] Suc.prems show ?thesis
        by (auto simp: evaluateLoop.simps split: if_splits)
    next
      case (Some s)
      obtain reg val opr where s: "s = (reg, val, opr)" by (cases s)
      show ?thesis
      proof (cases "applyOp opr (nullish (getProperty st reg) (Num 0)) val")
        case (Inl e)
        with Inr p Some s show ?thesis
          by (auto simp: evaluateLoop.simps failed_fields Let_def)
      next
        case (Inr aft)
        with \<open>parseStatement ts = Inr p\<close> p Some s Suc.prems Suc.IH show ?thesis
          by (simp add: evaluateLoop.simps Let_def)
      qed
    qed
  qed
qed

text \<open>
  The states that \<open>evaluate\<close> returns are the initial states updated by the steps it returns,
  as long as no step assigns to \<open>__proto__\<close> in a state that has no entry of that name. A
  failure carries the message of its exception.
\<close>

lemma stored_steps_replay:
  assumes "\<forall>s \<in> set new. register s \<noteq> ''__proto__'' \<or> st ''__proto__'' \<noteq> None"
  shows "foldl (\<lambda>st s. setProperty st (register s) (after s)) st new = replay st new"
  using assms
proof (induction new arbitrary: st)
  case Nil
  show ?case by (simp add: replay_def)
next
  case (Cons s new)
  let ?st = "st(register s \<mapsto> after s)"
  from Cons.prems have a: "setProperty st (register s) (after s) = ?st"
    by (auto simp: setProperty_def)
  from Cons.prems
  have "\<forall>t \<in> set new. register t \<noteq> ''__proto__'' \<or> ?st ''__proto__'' \<noteq> None"
    by auto
  with Cons.IH [where st = "?st"]
  have "foldl (\<lambda>st s. setProperty st (register s) (after s)) ?st new = replay ?st new"
    by blast
  with a show ?case by (simp only: foldl_Cons replay_def)
qed

lemma evaluate_replay:
  assumes "\<forall>s \<in> set (steps (evaluate code init)). register s \<noteq> ''__proto__'' \<or> init ''__proto__'' \<noteq> None"
  shows "registerStates (evaluate code init) = replay init (steps (evaluate code init))"
proof -
  from evaluateLoop_steps [of 100 "tokenize code" init "[]"]
  obtain new where a: "steps (evaluate code init) = new"
    and b: "registerStates (evaluate code init) =
            foldl (\<lambda>st s. setProperty st (register s) (after s)) init new"
    by (auto simp: evaluate_def)
  from assms a stored_steps_replay [of new init] b show ?thesis by simp
qed

lemma evaluate_failure_message:
  assumes "\<not> success (evaluate code init)"
  shows "\<exists>e. error (evaluate code init) = Some (message e) \<and> message e \<noteq> []"
  using evaluateLoop_error [of 100 "tokenize code" init "[]"] assms
  by (auto simp: evaluate_def message_nonempty)

lemma applyOp_byte:
  assumes "applyOp opr bef val = Inr aft"
  shows "\<exists>m. aft = Num m \<and> 0 \<le> m \<and> m < 256"
  using assms by (auto simp: applyOp_def bitAnd_255 split: if_splits)

lemma evaluateLoop_keeps_own:
  assumes "st t = Some v"
  shows "\<exists>v'. registerStates (evaluateLoop n ts st stps) t = Some v' \<and> (v' = v \<or> (\<exists>m. v' = Num m))"
  using assms
proof (induction n arbitrary: ts st stps v)
  case 0
  then show ?case by (simp add: evaluateLoop.simps)
next
  case (Suc n)
  show ?case
  proof (cases "parseStatement ts")
    case (Inl e)
    with Suc.prems show ?thesis by (simp add: evaluateLoop.simps failed_fields)
  next
    case (Inr p)
    obtain stmt ts' where p: "p = (stmt, ts')" by (cases p)
    show ?thesis
    proof (cases stmt)
      case None
      with Inr p Suc.IH [where st = st and v = v and ts = ts' and stps = stps] Suc.prems show ?thesis
        by (simp add: evaluateLoop.simps)
    next
      case (Some s)
      obtain reg val opr where s: "s = (reg, val, opr)" by (cases s)
      show ?thesis
      proof (cases "applyOp opr (nullish (getProperty st reg) (Num 0)) val")
        case (Inl e)
        with Inr p Some s Suc.prems show ?thesis
          by (simp add: evaluateLoop.simps failed_fields Let_def)
      next
        case (Inr aft)
        let ?step = "\<lparr>register = reg, op = opr, exprValue = val,
                       before = nullish (getProperty st reg) (Num 0), after = aft\<rparr>"
        have eq: "evaluateLoop (Suc n) ts st stps =
              evaluateLoop n ts' (setProperty st reg aft) (stps @ [?step])"
          using \<open>parseStatement ts = Inr p\<close> p Some s Inr
          by (simp add: evaluateLoop.simps Let_def)
        from applyOp_byte [OF Inr] obtain m where m: "aft = Num m" by blast
        show ?thesis
        proof (cases "reg = t")
          case True
          with Suc.prems have "setProperty st reg aft t = Some aft"
            by (simp add: setProperty_def)
          from Suc.IH [where st = "setProperty st reg aft" and v = aft and ts = ts'
              and stps = "stps @ [?step]"] this m eq
          show ?thesis by auto
        next
          case False
          with Suc.prems have "setProperty st reg aft t = Some v"
            by (simp add: setProperty_def)
          from Suc.IH [where st = "setProperty st reg aft" and v = v and ts = ts'
              and stps = "stps @ [?step]"] this eq
          show ?thesis by auto
        qed
      qed
    qed
  qed
qed

lemma scan_ops:
  "scan (CHR ''|'' # CHR ''='' # cs) = tok OR_ASSIGN ''|='' # scan cs"
  "scan (CHR ''^'' # CHR ''='' # cs) = tok XOR_ASSIGN ''^='' # scan cs"
  "scan (CHR ''&'' # CHR ''='' # cs) = tok AND_ASSIGN ''&='' # scan cs"
  "scan (CHR ''('' # cs) = tok LPAREN ''('' # scan cs"
  "scan (CHR '')'' # cs) = tok RPAREN '')'' # scan cs"
  by (simp_all add: scan.simps is_space_def twoCharOp_def oneCharOp_def split: list.splits)

lemma scan_one:
  assumes "\<not> is_digit d" "d \<notin> set ''xXbB''"
  shows "scan (CHR ''1'' # d # rest) = numTok ''1'' (Num 1) # scan (d # rest)"
proof -
  have "decimal 1 = ''1''" by code_simp
  with scan_decimal_byte [of 1 d rest] assms show ?thesis by simp
qed

lemma identifier_ends:
  assumes "is_identifier X"
  shows "X \<noteq> []" "\<not> is_space (hd X)"
  using assms ident_start_facts(1) [of "hd X"] by (auto simp: is_identifier_def)

lemma scan_orStatement:
  assumes "is_identifier X" "k < 8"
  shows "scan (orStatement X k @ rest) =
     [tok IDENTIFIER X, tok OR_ASSIGN ''|='', tok LPAREN ''('', numTok ''1'' (Num 1),
      tok LSHIFT ''<<'', numTok (decimal k) (Num (int k)), tok RPAREN '')'',
      tok SEMICOLON '';''] @ scan rest"
proof -
  have "scan (X @ CHR '' '' # r) = tok IDENTIFIER X # scan (CHR '' '' # r)" for r
    by (rule scan_identifier [OF assms(1)]) (simp add: is_ident_char_def)
  then show ?thesis
    using assms(2)
    by (simp add: orStatement_def scan_simple scan_ops scan_one scan_decimal_byte is_digit_def)
qed

lemma scan_xorStatement:
  assumes "is_identifier X" "k < 8"
  shows "scan (xorStatement X k @ rest) =
     [tok IDENTIFIER X, tok XOR_ASSIGN ''^='', tok LPAREN ''('', numTok ''1'' (Num 1),
      tok LSHIFT ''<<'', numTok (decimal k) (Num (int k)), tok RPAREN '')'',
      tok SEMICOLON '';''] @ scan rest"
proof -
  have "scan (X @ CHR '' '' # r) = tok IDENTIFIER X # scan (CHR '' '' # r)" for r
    by (rule scan_identifier [OF assms(1)]) (simp add: is_ident_char_def)
  then show ?thesis
    using assms(2)
    by (simp add: xorStatement_def scan_simple scan_ops scan_one scan_decimal_byte is_digit_def)
qed

lemma trim_statement:
  assumes "is_identifier X"
  shows "trim (X @ c # cs @ '';'') = X @ c # cs @ '';''"
  using identifier_ends [OF assms]
  by (intro trim_id) (simp_all add: is_space_def)

lemma parse_bit_statement:
  assumes "type' opTok \<in> {ASSIGN, OR_ASSIGN, AND_ASSIGN, XOR_ASSIGN}"
  shows "parseStatement
     (tok IDENTIFIER X # opTok # tok LPAREN ''('' # numTok ''1'' (Num 1) # tok LSHIFT ''<<'' #
      numTok sk (Num k) # tok RPAREN '')'' # tok SEMICOLON '';'' # rest) =
   Inr (Some (X, bitAnd (shl (Num 1) (Num k)) (Num 255),
              if type' opTok = ASSIGN then ''=''
              else if type' opTok = OR_ASSIGN then ''|=''
              else if type' opTok = AND_ASSIGN then ''&='' else ''^=''), rest)"
  using assms by (auto simp: parser_simps)

lemma bit_value: "k < 8 \<Longrightarrow> bitAnd (shl (Num 1) (Num (int k))) (Num 255) = Num (2 ^ k)"
proof -
  assume k: "k < 8"
  then have "(2::int) ^ k < 2 ^ 8" by (intro power_strict_increasing) simp_all
  with k show ?thesis using shl_byte [of "int k" 1] by simp
qed

lemma or_byte:
  assumes "0 \<le> v" "v < 256" "0 \<le> b" "b < 256"
  shows "bitAnd (bitOr (Num v) (Num b)) (Num 255) = Num (or v b)"
proof -
  have "or v b < 2 ^ 8" using assms by (intro OR_upper) simp_all
  moreover have "0 \<le> or v b" using assms by simp
  ultimately show ?thesis
    using assms by (simp add: bitAnd_255 bitOr_def toInt32_small toInt32_mod_256)
qed

lemma xor_byte:
  assumes "0 \<le> v" "v < 256" "0 \<le> b" "b < 256"
  shows "bitAnd (bitXor (Num v) (Num b)) (Num 255) = Num (xor v b)"
proof -
  have "xor v b < 2 ^ 8" using assms by (intro XOR_upper) simp_all
  moreover have "0 \<le> xor v b" using assms by simp
  ultimately show ?thesis
    using assms by (simp add: bitAnd_255 bitXor_def toInt32_small toInt32_mod_256)
qed

lemma or_byte_bounds:
  assumes "0 \<le> v" "v < 256" "0 \<le> b" "b < 256"
  shows "0 \<le> or v b" "or v b < (256::int)"
proof -
  have "or v b < 2 ^ 8" using assms by (intro OR_upper) simp_all
  then show "or v b < 256" by simp
  show "0 \<le> or v b" using assms by simp
qed

lemma xor_byte_bounds:
  assumes "0 \<le> v" "v < 256" "0 \<le> b" "b < 256"
  shows "0 \<le> xor v b" "xor v b < (256::int)"
proof -
  have "xor v b < 2 ^ 8" using assms by (intro XOR_upper) simp_all
  then show "xor v b < 256" by simp
  show "0 \<le> xor v b" using assms by simp
qed

lemma pow2_byte: "k < 8 \<Longrightarrow> (2::int) ^ k < 256"
proof -
  assume "k < 8"
  then have "(2::int) ^ k < 2 ^ 8" by (intro power_strict_increasing) simp_all
  then show ?thesis by simp
qed

lemma tokenize_orStatement:
  assumes "is_identifier X" "k < 8"
  shows "tokenize (orStatement X k) =
     [tok IDENTIFIER X, tok OR_ASSIGN ''|='', tok LPAREN ''('', numTok ''1'' (Num 1),
      tok LSHIFT ''<<'', numTok (decimal k) (Num (int k)), tok RPAREN '')'',
      tok SEMICOLON '';'', tok EOF '''']"
proof -
  have "trim (orStatement X k) = orStatement X k"
    using identifier_ends [OF assms(1)]
    by (intro trim_id) (simp_all add: orStatement_def is_space_def)
  with scan_orStatement [OF assms, of "[]"] show ?thesis
    by (simp add: tokenize_def scan_simple)
qed

lemma tokenize_xorStatement:
  assumes "is_identifier X" "k < 8"
  shows "tokenize (xorStatement X k) =
     [tok IDENTIFIER X, tok XOR_ASSIGN ''^='', tok LPAREN ''('', numTok ''1'' (Num 1),
      tok LSHIFT ''<<'', numTok (decimal k) (Num (int k)), tok RPAREN '')'',
      tok SEMICOLON '';'', tok EOF '''']"
proof -
  have "trim (xorStatement X k) = xorStatement X k"
    using identifier_ends [OF assms(1)]
    by (intro trim_id) (simp_all add: xorStatement_def is_space_def)
  with scan_xorStatement [OF assms, of "[]"] show ?thesis
    by (simp add: tokenize_def scan_simple)
qed

lemma evaluate_orStatement:
  assumes "is_identifier X" "k < 8" "init X = Some (Num v)" "0 \<le> v" "v < 256"
  shows "evaluate (orStatement X k) init =
     \<lparr>success = True, registerStates = init(X \<mapsto> Num (or v (2 ^ k))), error = None,
      steps = [\<lparr>register = X, op = ''|='', exprValue = Num (2 ^ k), before = Num v,
                after = Num (or v (2 ^ k))\<rparr>]\<rparr>"
proof -
  have p: "parseStatement (tokenize (orStatement X k)) =
      Inr (Some (X, Num (2 ^ k), ''|=''), tok EOF [] # [])"
    using parse_bit_statement [of "tok OR_ASSIGN ''|=''" X "decimal k" "int k" "[tok EOF '''']"]
    by (simp add: tokenize_orStatement [OF assms(1,2)] bit_value [OF assms(2)]) (simp add: tok_def)
  have b: "nullish (getProperty init X) (Num 0) = Num v"
    using assms(3) by (simp add: getProperty_def nullish_def)
  have a: "applyOp ''|='' (nullish (getProperty init X) (Num 0)) (Num (2 ^ k)) =
      Inr (Num (or v (2 ^ k)))"
    using or_byte [OF assms(4,5), of "2 ^ k"] pow2_byte [OF assms(2)]
    by (simp add: b applyOp_def)
  from evaluate_single [OF p a] assms(3) show ?thesis
    by (simp add: b setProperty_def)
qed

lemma evaluate_xorStatement:
  assumes "is_identifier X" "k < 8" "init X = Some (Num v)" "0 \<le> v" "v < 256"
  shows "evaluate (xorStatement X k) init =
     \<lparr>success = True, registerStates = init(X \<mapsto> Num (xor v (2 ^ k))), error = None,
      steps = [\<lparr>register = X, op = ''^='', exprValue = Num (2 ^ k), before = Num v,
                after = Num (xor v (2 ^ k))\<rparr>]\<rparr>"
proof -
  have p: "parseStatement (tokenize (xorStatement X k)) =
      Inr (Some (X, Num (2 ^ k), ''^=''), tok EOF [] # [])"
    using parse_bit_statement [of "tok XOR_ASSIGN ''^=''" X "decimal k" "int k" "[tok EOF '''']"]
    by (simp add: tokenize_xorStatement [OF assms(1,2)] bit_value [OF assms(2)]) (simp add: tok_def)
  have b: "nullish (getProperty init X) (Num 0) = Num v"
    using assms(3) by (simp add: getProperty_def nullish_def)
  have a: "applyOp ''^='' (nullish (getProperty init X) (Num 0)) (Num (2 ^ k)) =
      Inr (Num (xor v (2 ^ k)))"
    using xor_byte [OF assms(4,5), of "2 ^ k"] pow2_byte [OF assms(2)]
    by (simp add: b applyOp_def)
  from evaluate_single [OF p a] assms(3) show ?thesis
    by (simp add: b setProperty_def)
qed

lemma evaluate_double:
  assumes "parseStatement (tokenize code) = Inr (Some (r1, v1, o1), ts1)"
    and "applyOp o1 (nullish (getProperty init r1) (Num 0)) v1 = Inr aft1"
    and "parseStatement ts1 = Inr (Some (r2, v2, o2), tok EOF [] # rest)"
    and "applyOp o2 (nullish (getProperty (setProperty init r1 aft1) r2) (Num 0)) v2 = Inr aft2"
  shows "evaluate code init =
     \<lparr>success = True, registerStates = setProperty (setProperty init r1 aft1) r2 aft2,
      error = None,
      steps = [\<lparr>register = r1, op = o1, exprValue = v1,
                before = nullish (getProperty init r1) (Num 0), after = aft1\<rparr>,
               \<lparr>register = r2, op = o2, exprValue = v2,
                before = nullish (getProperty (setProperty init r1 aft1) r2) (Num 0),
                after = aft2\<rparr>]\<rparr>"
proof -
  have "evaluate code init = evaluateLoop (Suc (Suc (Suc 97))) (tokenize code) init []"
    by (simp add: evaluate_def)
  also note evaluateLoop_statement [OF assms(1,2)]
  also note evaluateLoop_statement [OF assms(3,4)]
  also note evaluateLoop_done
  finally show ?thesis by simp
qed

lemma tokenize_orStatement_twice:
  assumes "is_identifier X" "k < 8"
  shows "tokenize (twice (orStatement X k)) =
     [tok IDENTIFIER X, tok OR_ASSIGN ''|='', tok LPAREN ''('', numTok ''1'' (Num 1),
      tok LSHIFT ''<<'', numTok (decimal k) (Num (int k)), tok RPAREN '')'',
      tok SEMICOLON '';'',
      tok IDENTIFIER X, tok OR_ASSIGN ''|='', tok LPAREN ''('', numTok ''1'' (Num 1),
      tok LSHIFT ''<<'', numTok (decimal k) (Num (int k)), tok RPAREN '')'',
      tok SEMICOLON '';'', tok EOF '''']"
proof -
  have "trim (twice (orStatement X k)) = twice (orStatement X k)"
    using identifier_ends [OF assms(1)]
    by (intro trim_id) (simp_all add: orStatement_def twice_def is_space_def)
  with scan_orStatement [OF assms, of "'' '' @ orStatement X k"] scan_orStatement [OF assms, of "[]"]
  show ?thesis
    by (simp add: tokenize_def scan_simple twice_def)
qed

lemma tokenize_xorStatement_twice:
  assumes "is_identifier X" "k < 8"
  shows "tokenize (twice (xorStatement X k)) =
     [tok IDENTIFIER X, tok XOR_ASSIGN ''^='', tok LPAREN ''('', numTok ''1'' (Num 1),
      tok LSHIFT ''<<'', numTok (decimal k) (Num (int k)), tok RPAREN '')'',
      tok SEMICOLON '';'',
      tok IDENTIFIER X, tok XOR_ASSIGN ''^='', tok LPAREN ''('', numTok ''1'' (Num 1),
      tok LSHIFT ''<<'', numTok (decimal k) (Num (int k)), tok RPAREN '')'',
      tok SEMICOLON '';'', tok EOF '''']"
proof -
  have "trim (twice (xorStatement X k)) = twice (xorStatement X k)"
    using identifier_ends [OF assms(1)]
    by (intro trim_id) (simp_all add: xorStatement_def twice_def is_space_def)
  with scan_xorStatement [OF assms, of "'' '' @ xorStatement X k"] scan_xorStatement [OF assms, of "[]"]
  show ?thesis
    by (simp add: tokenize_def scan_simple twice_def)
qed

lemma evaluate_orStatement_twice:
  assumes "is_identifier X" "k < 8" "init X = Some (Num v)" "0 \<le> v" "v < 256"
  shows "registerStates (evaluate (twice (orStatement X k)) init) =
           init(X \<mapsto> Num (or (or v (2 ^ k)) (2 ^ k)))"
proof -
  let ?b = "(2::int) ^ k"
  let ?stmt = "[tok IDENTIFIER X, tok OR_ASSIGN ''|='', tok LPAREN ''('', numTok ''1'' (Num 1),
      tok LSHIFT ''<<'', numTok (decimal k) (Num (int k)), tok RPAREN '')'', tok SEMICOLON '';'']"
  have p1: "parseStatement (tokenize (twice (orStatement X k))) =
      Inr (Some (X, Num ?b, ''|=''), ?stmt @ [tok EOF ''''])"
    unfolding tokenize_orStatement_twice [OF assms(1,2)]
    using parse_bit_statement [of "tok OR_ASSIGN ''|=''" X "decimal k" "int k" "?stmt @ [tok EOF '''']"]
    by (simp add: bit_value [OF assms(2)] tok_def)
  have p2: "parseStatement (?stmt @ [tok EOF '''']) = Inr (Some (X, Num ?b, ''|=''), tok EOF [] # [])"
    using parse_bit_statement [of "tok OR_ASSIGN ''|=''" X "decimal k" "int k" "[tok EOF '''']"]
    by (simp add: bit_value [OF assms(2)]) (simp add: tok_def)
  have b1: "nullish (getProperty init X) (Num 0) = Num v"
    using assms(3) by (simp add: getProperty_def nullish_def)
  have a1: "applyOp ''|='' (nullish (getProperty init X) (Num 0)) (Num ?b) = Inr (Num (or v ?b))"
    using or_byte [OF assms(4,5), of ?b] pow2_byte [OF assms(2)] by (simp add: b1 applyOp_def)
  have s1: "setProperty init X (Num (or v ?b)) = init(X \<mapsto> Num (or v ?b))"
    using assms(3) by (simp add: setProperty_def)
  have b2: "nullish (getProperty (setProperty init X (Num (or v ?b))) X) (Num 0) = Num (or v ?b)"
    by (simp add: s1 getProperty_def nullish_def)
  have a2: "applyOp ''|='' (nullish (getProperty (setProperty init X (Num (or v ?b))) X) (Num 0)) (Num ?b) =
      Inr (Num (or (or v ?b) ?b))"
    using or_byte [OF or_byte_bounds [OF assms(4,5), of ?b], of ?b] pow2_byte [OF assms(2)]
    by (simp add: b2 applyOp_def)
  have s2: "setProperty (init(X \<mapsto> a)) X c = init(X \<mapsto> c)" for a c
    by (simp add: setProperty_def)
  from evaluate_double [OF p1 a1 p2 a2]
  have "registerStates (evaluate (twice (orStatement X k)) init) =
      setProperty (setProperty init X (Num (or v ?b))) X (Num (or (or v ?b) ?b))"
    by simp
  then show ?thesis by (simp only: s1 s2)
qed

lemma evaluate_xorStatement_twice:
  assumes "is_identifier X" "k < 8" "init X = Some (Num v)" "0 \<le> v" "v < 256"
  shows "registerStates (evaluate (twice (xorStatement X k)) init) =
           init(X \<mapsto> Num (xor (xor v (2 ^ k)) (2 ^ k)))"
proof -
  let ?b = "(2::int) ^ k"
  let ?stmt = "[tok IDENTIFIER X, tok XOR_ASSIGN ''^='', tok LPAREN ''('', numTok ''1'' (Num 1),
      tok LSHIFT ''<<'', numTok (decimal k) (Num (int k)), tok RPAREN '')'', tok SEMICOLON '';'']"
  have p1: "parseStatement (tokenize (twice (xorStatement X k))) =
      Inr (Some (X, Num ?b, ''^=''), ?stmt @ [tok EOF ''''])"
    unfolding tokenize_xorStatement_twice [OF assms(1,2)]
    using parse_bit_statement [of "tok XOR_ASSIGN ''^=''" X "decimal k" "int k" "?stmt @ [tok EOF '''']"]
    by (simp add: bit_value [OF assms(2)] tok_def)
  have p2: "parseStatement (?stmt @ [tok EOF '''']) = Inr (Some (X, Num ?b, ''^=''), tok EOF [] # [])"
    using parse_bit_statement [of "tok XOR_ASSIGN ''^=''" X "decimal k" "int k" "[tok EOF '''']"]
    by (simp add: bit_value [OF assms(2)]) (simp add: tok_def)
  have b1: "nullish (getProperty init X) (Num 0) = Num v"
    using assms(3) by (simp add: getProperty_def nullish_def)
  have a1: "applyOp ''^='' (nullish (getProperty init X) (Num 0)) (Num ?b) = Inr (Num (xor v ?b))"
    using xor_byte [OF assms(4,5), of ?b] pow2_byte [OF assms(2)] by (simp add: b1 applyOp_def)
  have s1: "setProperty init X (Num (xor v ?b)) = init(X \<mapsto> Num (xor v ?b))"
    using assms(3) by (simp add: setProperty_def)
  have b2: "nullish (getProperty (setProperty init X (Num (xor v ?b))) X) (Num 0) = Num (xor v ?b)"
    by (simp add: s1 getProperty_def nullish_def)
  have a2: "applyOp ''^='' (nullish (getProperty (setProperty init X (Num (xor v ?b))) X) (Num 0)) (Num ?b) =
      Inr (Num (xor (xor v ?b) ?b))"
    using xor_byte [OF xor_byte_bounds [OF assms(4,5), of ?b], of ?b] pow2_byte [OF assms(2)]
    by (simp add: b2 applyOp_def)
  have s2: "setProperty (init(X \<mapsto> a)) X c = init(X \<mapsto> c)" for a c
    by (simp add: setProperty_def)
  from evaluate_double [OF p1 a1 p2 a2]
  have "registerStates (evaluate (twice (xorStatement X k)) init) =
      setProperty (setProperty init X (Num (xor v ?b))) X (Num (xor (xor v ?b) ?b))"
    by simp
  then show ?thesis by (simp only: s1 s2)
qed

lemma statement_texts:
  "orStatement ''PORTD'' 5 = ''PORTD |= (1<<5);''"
  "xorStatement ''PORTD'' 5 = ''PORTD ^= (1<<5);''"
  "twice (xorStatement ''PORTD'' 5) = ''PORTD ^= (1<<5); PORTD ^= (1<<5);''"
  by code_simp+

lemma display_rhs_overflow:
  assumes "trim input = t" and "t \<noteq> []" and "matchRegister t = Some r"
    and "trim (drop (length r) t) = ar" and "ar \<noteq> []"
    and "matchOperator ar = Some opr"
    and "trim (drop (length opr) ar) = ao" and "ao \<noteq> []"
    and "trim (if endsWith '';'' ao then butlast ao else ao) = rhs"
    and "buildRhsParts fuel rhs = None"
  shows "parseExpression_display fuel input reg init = None"
  using assms by (simp add: parseExpression_display_def Let_def)

lemma buildRhsParts_same_segment:
  assumes "matchShift rhs = None" and "\<not> startsWith ''~'' rhs"
    and "includes' ''|'' rhs" and "includes' ''<<'' rhs"
    and "splitOnOperator
           (if endsWith '')'' (if startsWith ''('' rhs then drop 1 rhs else rhs)
            then butlast (if startsWith ''('' rhs then drop 1 rhs else rhs)
            else (if startsWith ''('' rhs then drop 1 rhs else rhs)) CHR ''|'' = [seg]"
    and "buildRhsParts n (trim seg) = None"
  shows "buildRhsParts (Suc n) rhs = None"
  using assms by (simp add: Let_def)

lemma buildRhsParts_loops:
  assumes "matchShift rhs = None" and "\<not> startsWith ''~'' rhs"
    and "includes' ''|'' rhs" and "includes' ''<<'' rhs"
    and "splitOnOperator
           (if endsWith '')'' (if startsWith ''('' rhs then drop 1 rhs else rhs)
            then butlast (if startsWith ''('' rhs then drop 1 rhs else rhs)
            else (if startsWith ''('' rhs then drop 1 rhs else rhs)) CHR ''|'' = [rhs]"
    and "trim rhs = rhs"
  shows "buildRhsParts n rhs = None"
proof (induction n)
  case 0
  show ?case by simp
next
  case (Suc n)
  with assms show ?case by (intro buildRhsParts_same_segment [where seg = rhs]) simp_all
qed

lemma loop1: "buildRhsParts n ''1<<(PA1|PA2'' = None"
  by (rule buildRhsParts_loops) code_simp+

lemma loop1': "buildRhsParts n ''1<<(PA1|PA2)'' = None"
proof (cases n)
  case 0
  then show ?thesis by simp
next
  case (Suc m)
  have "buildRhsParts (Suc m) ''1<<(PA1|PA2)'' = None"
    by (rule buildRhsParts_same_segment [where seg = "''1<<(PA1|PA2''"]) (code_simp+, simp add: loop1)
  with Suc show ?thesis by simp
qed

lemma loop2: "buildRhsParts n ''1<<RXEN0)|(1<<TXEN0'' = None"
  by (rule buildRhsParts_loops) code_simp+

lemma loop2': "buildRhsParts n ''(1<<RXEN0)|(1<<TXEN0)'' = None"
proof (cases n)
  case 0
  then show ?thesis by simp
next
  case (Suc m)
  have "buildRhsParts (Suc m) ''(1<<RXEN0)|(1<<TXEN0)'' = None"
    by (rule buildRhsParts_same_segment [where seg = "''1<<RXEN0)|(1<<TXEN0''"])
       (code_simp+, simp add: loop2)
  with Suc show ?thesis by simp
qed

lemma loop2'': "buildRhsParts n ''(1<<RXEN0)|'' = None"
proof (cases n)
  case 0
  then show ?thesis by simp
next
  case (Suc m)
  have a: "buildRhsParts k ''1<<RXEN0)|'' = None" for k
    by (rule buildRhsParts_loops) code_simp+
  have "buildRhsParts (Suc m) ''(1<<RXEN0)|'' = None"
    by (rule buildRhsParts_same_segment [where seg = "''1<<RXEN0)|''"])
       (code_simp+, simp add: a)
  with Suc show ?thesis by simp
qed


section \<open>The parser and the analyzer on \<open>a^b&c\<close>\<close>































section \<open>Claims about the strict evaluator\<close>

text \<open>
  C6 (as stated): for the input \<open>PORTA = 0xFQ;\<close> the hex literal stops at \<open>F\<close> with the
  value 15 and the evaluation succeeds with \<open>PORTA = 0x0F\<close>. The evaluation does not
  succeed: the claim is false at this input.
\<close>

theorem C6_counterexample:
  "\<not> (numValue (tokenize ''PORTA = 0xFQ;'' ! 2) = Some (Num 15) \<and>
      success (evaluate ''PORTA = 0xFQ;'' Map.empty) \<and>
      registerStates (evaluate ''PORTA = 0xFQ;'' Map.empty) ''PORTA'' = Some (Num 15))"
  by code_simp

text \<open>
  C6 (amended): for the input \<open>PORTA = 0xFQ;\<close> the hex literal stops at \<open>F\<close> with the
  value 15 and the rest \<open>Q\<close> becomes an identifier token; the first statement parses and
  commits \<open>PORTA = 0x0F\<close>; the next statement \<open>Q;\<close> has no assignment operator, so
  \<open>evaluate\<close> returns \<open>success = false\<close> with that error, one step, and \<open>PORTA = 0x0F\<close> in
  the register states.
\<close>

theorem C6_hex_literal_stops_then_fails:
  "tokenize ''PORTA = 0xFQ;'' =
     [tok IDENTIFIER ''PORTA'', tok ASSIGN ''='', numTok ''0xF'' (Num 15),
      tok IDENTIFIER ''Q'', tok SEMICOLON '';'', tok EOF ''''] \<and>
   parseStatement (tokenize ''PORTA = 0xFQ;'') =
     Inr (Some (''PORTA'', Num 15, ''=''),
          [tok IDENTIFIER ''Q'', tok SEMICOLON '';'', tok EOF '''']) \<and>
   success (evaluate ''PORTA = 0xFQ;'' Map.empty) = False \<and>
   error (evaluate ''PORTA = 0xFQ;'' Map.empty) =
     Some (''Expected assignment operator but got '' @ [CHR 0x27] @ '';'' @ [CHR 0x27]) \<and>
   steps (evaluate ''PORTA = 0xFQ;'' Map.empty) =
     [\<lparr>register = ''PORTA'', op = ''='', exprValue = Num 15, before = Num 0, after = Num 15\<rparr>] \<and>
   registerStates (evaluate ''PORTA = 0xFQ;'' Map.empty) ''PORTA'' = Some (Num 15)"
  by code_simp

text \<open>
  C3 (amended): for all \<open>a\<close> and \<open>k\<close> in [0,255], written in decimal, evaluating
  \<open>X = a << k;\<close> from any initial state succeeds with final \<open>X = (a * 2^(k mod 32)) mod 256\<close>,
  and evaluating \<open>X = a >> k;\<close> succeeds with final \<open>X = floor(a / 2^(k mod 32))\<close>: the shift
  count is taken modulo 32. For \<open>k < 32\<close> these are the values of the claim as stated
  (0 for a left shift by 8 to 31).
\<close>

theorem C3_shifts_use_count_mod_32:
  assumes "a < 256" and "k < 256"
  shows "success (evaluate (shiftLeftStatement a k) init) \<and>
         registerStates (evaluate (shiftLeftStatement a k) init) ''X'' =
           Some (Num ((int a * 2 ^ (k mod 32)) mod 256)) \<and>
         success (evaluate (shiftRightStatement a k) init) \<and>
         registerStates (evaluate (shiftRightStatement a k) init) ''X'' =
           Some (Num (int a div 2 ^ (k mod 32)))"
proof -
  have l: "bitAnd (shl (Num (int a)) (Num (int k))) (Num 255) = Num ((int a * 2 ^ (k mod 32)) mod 256)"
    using shl_byte [of "int k" "int a"] by simp
  have r: "bitAnd (sar (Num (int a)) (Num (int k))) (Num 255) = Num (int a div 2 ^ (k mod 32))"
    using sar_byte [of "int k" "int a"] assms by simp
  have "int a div 2 ^ (k mod 32) \<le> int a div 1"
    by (intro zdiv_mono2) simp_all
  then have rb: "0 \<le> int a div 2 ^ (k mod 32)" "int a div 2 ^ (k mod 32) < 256"
    using assms by (simp_all add: pos_imp_zdiv_nonneg_iff)
  have pl: "parseStatement (tokenize (shiftLeftStatement a k)) =
      Inr (Some (''X'', Num ((int a * 2 ^ (k mod 32)) mod 256), ''=''), [tok EOF ''''])"
    by (simp only: tokenize_shiftLeft [OF assms] parse_shiftLeft_tokens l)
  have pr: "parseStatement (tokenize (shiftRightStatement a k)) =
      Inr (Some (''X'', Num (int a div 2 ^ (k mod 32)), ''=''), [tok EOF ''''])"
    by (simp only: tokenize_shiftRight [OF assms] parse_shiftRight_tokens r)
  from evaluate_assign_X [OF pl, of init] evaluate_assign_X [OF pr rb, of init]
  show ?thesis by simp
qed

text \<open>The theorem at \<open>a = 1\<close>, \<open>k = 32\<close>: both statements leave \<open>X = 1\<close>.\<close>

theorem C3_witness:
  "(1::nat) < 256 \<and> (32::nat) < 256 \<and>
   shiftLeftStatement 1 32 = ''X = 1 << 32;'' \<and>
   success (evaluate (shiftLeftStatement 1 32) Map.empty) \<and>
   registerStates (evaluate (shiftLeftStatement 1 32) Map.empty) ''X'' = Some (Num 1) \<and>
   registerStates (evaluate (shiftRightStatement 1 32) Map.empty) ''X'' = Some (Num 1)"
proof -
  have "shiftLeftStatement 1 32 = ''X = 1 << 32;''" by code_simp
  with C3_shifts_use_count_mod_32 [of 1 32 Map.empty] show ?thesis by simp
qed

text \<open>
  C3 (as stated) gives \<open>(1 * 2^32) mod 256 = 0\<close> for \<open>X = 1 << 32;\<close> and
  \<open>floor(1 / 2^32) mod 256 = 0\<close> for \<open>X = 1 >> 32;\<close>. The code gives 1 for both.
\<close>

theorem C3_counterexample:
  "registerStates (evaluate ''X = 1 << 32;'' Map.empty) ''X'' \<noteq> Some (Num ((1 * 2 ^ 32) mod 256)) \<and>
   registerStates (evaluate ''X = 1 >> 32;'' Map.empty) ''X'' \<noteq> Some (Num ((1 div 2 ^ 32) mod 256))"
  by code_simp

text \<open>
  C4: the returned register states are not always the initial states updated by the
  statements listed in \<open>steps\<close>. At \<open>__proto__ = 1; X = FOO;\<close> from the empty state,
  \<open>evaluate\<close> fails at the second statement with a non-empty message, and \<open>steps\<close> lists the
  committed statement \<open>__proto__ = 1\<close> with \<open>after = 1\<close>. The assignment
  \<open>states[reg] = after\<close> went to the setter that \<open>Object.prototype\<close> has for that name, so the
  returned states have no entry for \<open>__proto__\<close>: the committed statement is lost.
\<close>

theorem C4_committed_proto_statement_is_lost:
  "success (evaluate ''__proto__ = 1; X = FOO;'' Map.empty) = False \<and>
   error (evaluate ''__proto__ = 1; X = FOO;'' Map.empty) = Some ''Unknown identifier: FOO'' \<and>
   steps (evaluate ''__proto__ = 1; X = FOO;'' Map.empty) =
     [\<lparr>register = ''__proto__'', op = ''='', exprValue = Num 1, before = Obj, after = Num 1\<rparr>] \<and>
   replay Map.empty (steps (evaluate ''__proto__ = 1; X = FOO;'' Map.empty)) ''__proto__'' =
     Some (Num 1) \<and>
   registerStates (evaluate ''__proto__ = 1; X = FOO;'' Map.empty) ''__proto__'' = None \<and>
   registerStates (evaluate ''__proto__ = 1; X = FOO;'' Map.empty) \<noteq>
     replay Map.empty (steps (evaluate ''__proto__ = 1; X = FOO;'' Map.empty))"
proof -
  have a: "success (evaluate ''__proto__ = 1; X = FOO;'' Map.empty) = False \<and>
           error (evaluate ''__proto__ = 1; X = FOO;'' Map.empty) = Some ''Unknown identifier: FOO'' \<and>
           steps (evaluate ''__proto__ = 1; X = FOO;'' Map.empty) =
             [\<lparr>register = ''__proto__'', op = ''='', exprValue = Num 1, before = Obj, after = Num 1\<rparr>]"
    by code_simp
  have b: "replay Map.empty (steps (evaluate ''__proto__ = 1; X = FOO;'' Map.empty)) ''__proto__'' =
             Some (Num 1)"
    by code_simp
  have c: "registerStates (evaluate ''__proto__ = 1; X = FOO;'' Map.empty) ''__proto__'' = None"
    by code_simp
  from b c have "registerStates (evaluate ''__proto__ = 1; X = FOO;'' Map.empty) \<noteq>
     replay Map.empty (steps (evaluate ''__proto__ = 1; X = FOO;'' Map.empty))"
    by (metis option.distinct(1))
  with a b c show ?thesis by blast
qed

text \<open>
  C8: \<open>checkAnswer\<close> runs \<open>evaluate\<close> on the single entry \<open>targetRegister -> initialValue\<close>;
  \<open>correct\<close> holds exactly when the evaluation succeeds and the final value of
  \<open>targetRegister\<close> is \<open>expectedValue\<close>; on failure \<open>correct\<close> is false, the user result is
  null and the error is the evaluator's.
\<close>

theorem C8_checkAnswer:
  "checkAnswer userCode targetRegister initialValue expectedValue =
     \<lparr>correct =
        (success (evaluate userCode [targetRegister \<mapsto> Num initialValue]) \<and>
         registerStates (evaluate userCode [targetRegister \<mapsto> Num initialValue]) targetRegister =
           Some (Num expectedValue)),
      userResult =
        (if success (evaluate userCode [targetRegister \<mapsto> Num initialValue])
         then registerStates (evaluate userCode [targetRegister \<mapsto> Num initialValue]) targetRegister
         else None),
      expected = Num expectedValue,
      error' =
        (if success (evaluate userCode [targetRegister \<mapsto> Num initialValue]) then None
         else error (evaluate userCode [targetRegister \<mapsto> Num initialValue])),
      steps' = steps (evaluate userCode [targetRegister \<mapsto> Num initialValue])\<rparr>"
proof -
  let ?r = "evaluate userCode [targetRegister \<mapsto> Num initialValue]"
  from evaluateLoop_keeps_own [where st = "[targetRegister \<mapsto> Num initialValue]"
      and t = targetRegister and v = "Num initialValue" and n = 100 and ts = "tokenize userCode"
      and stps = "[]"]
  obtain m where m: "registerStates ?r targetRegister = Some (Num m)"
    by (auto simp: evaluate_def)
  then have "nullish (getProperty (registerStates ?r) targetRegister) (Num initialValue) = Num m"
    by (simp add: getProperty_def nullish_def)
  with m show ?thesis
    by (simp add: checkAnswer_def Let_def strictEq_def)
qed

text \<open>
  C9: for every identifier \<open>X\<close>, bit index \<open>k\<close> in [0,7] and value \<open>v\<close> in [0,255], from
  \<open>X = v\<close>: evaluating \<open>X |= (1<<k);\<close> once gives \<open>v OR 2^k\<close>, and evaluating it a second time
  on the resulting states, or evaluating the statement written twice, gives the same
  states; evaluating \<open>X ^= (1<<k);\<close> twice, either way, gives back \<open>X = v\<close>.
\<close>

theorem C9_or_idempotent_xor_self_inverse:
  assumes "is_identifier X" and "k < 8" and "0 \<le> v" and "v < 256"
  shows "registerStates (evaluate (orStatement X k) [X \<mapsto> Num v]) = [X \<mapsto> Num (or v (2 ^ k))] \<and>
         registerStates (evaluate (orStatement X k)
            (registerStates (evaluate (orStatement X k) [X \<mapsto> Num v]))) =
           registerStates (evaluate (orStatement X k) [X \<mapsto> Num v]) \<and>
         registerStates (evaluate (twice (orStatement X k)) [X \<mapsto> Num v]) =
           registerStates (evaluate (orStatement X k) [X \<mapsto> Num v]) \<and>
         registerStates (evaluate (xorStatement X k) [X \<mapsto> Num v]) = [X \<mapsto> Num (xor v (2 ^ k))] \<and>
         registerStates (evaluate (xorStatement X k)
            (registerStates (evaluate (xorStatement X k) [X \<mapsto> Num v]))) = [X \<mapsto> Num v] \<and>
         registerStates (evaluate (twice (xorStatement X k)) [X \<mapsto> Num v]) =
           [X \<mapsto> Num v]"
proof -
  let ?b = "(2::int) ^ k"
  have once_or: "registerStates (evaluate (orStatement X k) [X \<mapsto> Num v]) = [X \<mapsto> Num (or v ?b)]"
    using evaluate_orStatement [OF assms(1,2) _ assms(3,4), of "[X \<mapsto> Num v]"] by simp
  have again_or: "registerStates (evaluate (orStatement X k) [X \<mapsto> Num (or v ?b)]) =
      [X \<mapsto> Num (or (or v ?b) ?b)]"
    using evaluate_orStatement [OF assms(1,2) _ or_byte_bounds [OF assms(3,4), of ?b],
        of "[X \<mapsto> Num (or v ?b)]"] pow2_byte [OF assms(2)]
    by simp
  have twice_or: "registerStates (evaluate (twice (orStatement X k)) [X \<mapsto> Num v]) =
      [X \<mapsto> Num (or (or v ?b) ?b)]"
    using evaluate_orStatement_twice [OF assms(1,2) _ assms(3,4), of "[X \<mapsto> Num v]"] by simp
  have once_xor: "registerStates (evaluate (xorStatement X k) [X \<mapsto> Num v]) = [X \<mapsto> Num (xor v ?b)]"
    using evaluate_xorStatement [OF assms(1,2) _ assms(3,4), of "[X \<mapsto> Num v]"] by simp
  have again_xor: "registerStates (evaluate (xorStatement X k) [X \<mapsto> Num (xor v ?b)]) =
      [X \<mapsto> Num (xor (xor v ?b) ?b)]"
    using evaluate_xorStatement [OF assms(1,2) _ xor_byte_bounds [OF assms(3,4), of ?b],
        of "[X \<mapsto> Num (xor v ?b)]"] pow2_byte [OF assms(2)]
    by simp
  have twice_xor: "registerStates (evaluate (twice (xorStatement X k)) [X \<mapsto> Num v]) =
      [X \<mapsto> Num (xor (xor v ?b) ?b)]"
    using evaluate_xorStatement_twice [OF assms(1,2) _ assms(3,4), of "[X \<mapsto> Num v]"] by simp
  have "or (or v ?b) ?b = or v ?b" by (simp add: or.assoc)
  moreover have "xor (xor v ?b) ?b = v" by (simp add: xor.assoc)
  ultimately show ?thesis
    by (simp add: once_or again_or twice_or once_xor again_xor twice_xor)
qed

text \<open>The theorem at \<open>X = PORTD\<close>, \<open>k = 5\<close>, \<open>v = 0x20\<close>.\<close>

theorem C9_witness:
  "is_identifier ''PORTD'' \<and> (5::nat) < 8 \<and> (0::int) \<le> 32 \<and> (32::int) < 256 \<and>
   registerStates (evaluate (orStatement ''PORTD'' 5) [''PORTD'' \<mapsto> Num 32]) = [''PORTD'' \<mapsto> Num 32] \<and>
   registerStates (evaluate (twice (orStatement ''PORTD'' 5)) [''PORTD'' \<mapsto> Num 32]) =
     [''PORTD'' \<mapsto> Num 32] \<and>
   registerStates (evaluate (xorStatement ''PORTD'' 5) [''PORTD'' \<mapsto> Num 32]) = [''PORTD'' \<mapsto> Num 0] \<and>
   registerStates (evaluate (twice (xorStatement ''PORTD'' 5)) [''PORTD'' \<mapsto> Num 32]) =
     [''PORTD'' \<mapsto> Num 32]"
proof -
  have a: "is_identifier ''PORTD''" by code_simp
  have c: "or (32::int) (2 ^ 5) = 32" "xor (32::int) (2 ^ 5) = 0" by simp_all
  from C9_or_idempotent_xor_self_inverse [OF a, of 5 32] a c show ?thesis by simp
qed

text \<open>
  C5 (masking invariant: from initial values in [0,255], every \<open>before\<close>, \<open>after\<close> and
  \<open>exprValue\<close> of every step and every final register value lies in [0,255]). The code
  breaks it where an identifier names a property of \<open>Object.prototype\<close>: from the empty
  initial state, \<open>X = toString;\<close> succeeds with an \<open>exprValue\<close> that is not a number, and
  \<open>toString |= 1;\<close> succeeds with a \<open>before\<close> that is not a number.
\<close>

theorem C5_prototype_name_is_not_a_byte:
  "success (evaluate ''X = toString;'' Map.empty) \<and>
   steps (evaluate ''X = toString;'' Map.empty) =
     [\<lparr>register = ''X'', op = ''='', exprValue = Obj, before = Num 0, after = Num 0\<rparr>] \<and>
   success (evaluate ''toString |= 1;'' Map.empty) \<and>
   steps (evaluate ''toString |= 1;'' Map.empty) =
     [\<lparr>register = ''toString'', op = ''|='', exprValue = Num 1, before = Obj, after = Num 1\<rparr>]"
  by code_simp

text \<open>
  C10 (the assignment target is not validated: for every identifier \<open>R\<close>,
  \<open>evaluate(R = e;, {})\<close> succeeds with \<open>registerStates[R]\<close> set to the value of \<open>e\<close>). For
  \<open>R = __proto__\<close> the evaluation succeeds and records the step, but the assignment
  \<open>states[R] = after\<close> stores nothing: the returned object has no own property
  \<open>__proto__\<close>, and reading it gives the inherited object.
\<close>

theorem C10_proto_target_is_not_stored:
  "success (evaluate ''__proto__ = 1;'' Map.empty) \<and>
   steps (evaluate ''__proto__ = 1;'' Map.empty) =
     [\<lparr>register = ''__proto__'', op = ''='', exprValue = Num 1, before = Obj, after = Num 1\<rparr>] \<and>
   registerStates (evaluate ''__proto__ = 1;'' Map.empty) ''__proto__'' = None \<and>
   getProperty (registerStates (evaluate ''__proto__ = 1;'' Map.empty)) ''__proto__'' = Obj"
  by code_simp

section \<open>Claims about the partial analyzer\<close>

text \<open>
  C1 (for every valid complete statement and every non-empty prefix of it, the analyzer
  returns a breakdown without raising). The statement \<open>PORTA = 1<<(PA1|PA2);\<close> of the claim
  and \<open>UCSR0B = (1<<RXEN0)|(1<<TXEN0);\<close> are both accepted by the strict evaluator, yet on
  each of them, and on a prefix of each, \<open>buildRhsParts\<close> calls itself on the same text
  again and again: whatever the depth the call stack allows, the analyzer ends in its
  exhaustion and returns nothing.
\<close>

theorem C1_analyzer_overflows_on_valid_statements:
  "success (evaluate ''PORTA = 1<<(PA1|PA2);'' Map.empty) \<and>
   (\<forall>fuel. parseExpression_display fuel ''PORTA = 1<<(PA1|PA2);'' reg init = None) \<and>
   (\<forall>fuel. parseExpression_display fuel ''PORTA = 1<<(PA1|PA2'' reg init = None) \<and>
   success (evaluate ''UCSR0B = (1<<RXEN0)|(1<<TXEN0);'' Map.empty) \<and>
   (\<forall>fuel. parseExpression_display fuel ''UCSR0B = (1<<RXEN0)|(1<<TXEN0);'' reg init = None) \<and>
   (\<forall>fuel. parseExpression_display fuel ''UCSR0B = (1<<RXEN0)|'' reg init = None)"
proof -
  have s1: "success (evaluate ''PORTA = 1<<(PA1|PA2);'' Map.empty)" by code_simp
  have s2: "success (evaluate ''UCSR0B = (1<<RXEN0)|(1<<TXEN0);'' Map.empty)" by code_simp
  have a: "parseExpression_display fuel ''PORTA = 1<<(PA1|PA2);'' reg init = None" for fuel
    by (rule display_rhs_overflow [where t = "''PORTA = 1<<(PA1|PA2);''" and r = "''PORTA''"
          and ar = "''= 1<<(PA1|PA2);''" and opr = "''=''" and ao = "''1<<(PA1|PA2);''"
          and rhs = "''1<<(PA1|PA2)''"])
       (code_simp+, rule loop1')
  have b: "parseExpression_display fuel ''PORTA = 1<<(PA1|PA2'' reg init = None" for fuel
    by (rule display_rhs_overflow [where t = "''PORTA = 1<<(PA1|PA2''" and r = "''PORTA''"
          and ar = "''= 1<<(PA1|PA2''" and opr = "''=''" and ao = "''1<<(PA1|PA2''"
          and rhs = "''1<<(PA1|PA2''"])
       (code_simp+, rule loop1)
  have c: "parseExpression_display fuel ''UCSR0B = (1<<RXEN0)|(1<<TXEN0);'' reg init = None" for fuel
    by (rule display_rhs_overflow [where t = "''UCSR0B = (1<<RXEN0)|(1<<TXEN0);''" and r = "''UCSR0B''"
          and ar = "''= (1<<RXEN0)|(1<<TXEN0);''" and opr = "''=''"
          and ao = "''(1<<RXEN0)|(1<<TXEN0);''" and rhs = "''(1<<RXEN0)|(1<<TXEN0)''"])
       (code_simp+, rule loop2')
  have d: "parseExpression_display fuel ''UCSR0B = (1<<RXEN0)|'' reg init = None" for fuel
    by (rule display_rhs_overflow [where t = "''UCSR0B = (1<<RXEN0)|''" and r = "''UCSR0B''"
          and ar = "''= (1<<RXEN0)|''" and opr = "''=''"
          and ao = "''(1<<RXEN0)|''" and rhs = "''(1<<RXEN0)|''"])
       (code_simp+, rule loop2'')
  from s1 s2 a b c d show ?thesis by blast
qed

text \<open>
  C7 (as stated): whenever \<open>operandValue\<close> is null, \<open>resultPreview\<close> is null. For the input
  \<open>PORTA\<close> with initial value 5 the operand is null and the preview is 5.
\<close>

theorem C7_counterexample:
  "map_option operandValue (parseExpression_display 0 ''PORTA'' ''PORTA'' (Num 5)) = Some None \<and>
   map_option resultPreview (parseExpression_display 0 ''PORTA'' ''PORTA'' (Num 5)) = Some (Some (Num 5))"
  by code_simp

text \<open>
  C7 (amended): for every input and initial value, if the breakdown has
  \<open>operandValue = null\<close> then \<open>resultPreview\<close> is null, except when no operator was
  detected and the breakdown is the single register part: then the preview is the
  initial value.
\<close>

theorem C7_preview_absent_without_operand:
  assumes "parseExpression_display fuel input reg initialValue = Some b"
    and "operandValue b = None"
  shows "resultPreview b = None \<or>
         (operator b = None \<and> resultPreview b = Some initialValue \<and>
          parts b = [part Register (Some initialValue)])"
  using assms
  by (auto simp: parseExpression_display_def Let_def split: if_splits option.splits)

text \<open>The theorem at the input \<open>PORTB |= (1<<\<close> (scenario 6 of the specification).\<close>

theorem C7_witness:
  "parseExpression_display 5 ''PORTB |= (1<<'' ''PORTB'' (Num 3) =
     Some \<lparr>parts = [part Register (Some (Num 3)), part Operator None, part Value None,
                    part Shadow None],
           resultPreview = None, registerName = Some ''PORTB'', operator = Some ''|='',
           operandValue = None\<rparr> \<and>
   operandValue \<lparr>parts = [part Register (Some (Num 3)), part Operator None, part Value None,
                    part Shadow None],
           resultPreview = None, registerName = Some ''PORTB'', operator = Some ''|='',
           operandValue = None\<rparr> = None \<and>
   resultPreview \<lparr>parts = [part Register (Some (Num 3)), part Operator None, part Value None,
                    part Shadow None],
           resultPreview = None, registerName = Some ''PORTB'', operator = Some ''|='',
           operandValue = None\<rparr> = None"
proof -
  have a: "parseExpression_display 5 ''PORTB |= (1<<'' ''PORTB'' (Num 3) =
     Some \<lparr>parts = [part Register (Some (Num 3)), part Operator None, part Value None,
                    part Shadow None],
           resultPreview = None, registerName = Some ''PORTB'', operator = Some ''|='',
           operandValue = None\<rparr>"
    by code_simp
  from C7_preview_absent_without_operand [OF a] a show ?thesis by simp
qed





text \<open>
  Other texts on which the two differ: the analyzer applies \<open>~\<close> to the whole shift, reads
  a chain of shifts from the right, and takes a text that starts with \<open>0x\<close> for one hex
  literal.
\<close>

lemma analyzer_other_differences:
  "rhsValue ''~1<<2'' = Some (Num 248) \<and> tryEvaluatePartial ''~1<<2'' = Some (Num 251) \<and>
   rhsValue ''1<<2<<3'' = Some (Num 32) \<and> tryEvaluatePartial ''1<<2<<3'' = Some (Num 0) \<and>
   rhsValue ''0x1|2'' = Some (Num 3) \<and> tryEvaluatePartial ''0x1|2'' = Some (Num 1)"
  by code_simp
end
